theory Spec2Isabelle
  imports Main "HOL-Library.AList"
begin

section \<open>Python values\<close>

text \<open>
  The values the pipeline handles come out of \<^verbatim>\<open>json.loads\<close> or are built by the code
  itself: \<^verbatim>\<open>None\<close>, booleans, integers (unbounded), floats, strings, lists, tuples and
  dictionaries with string keys. A float is carried as mantissa and binary exponent; no
  function below looks inside one. \<^verbatim>\<open>bool\<close> is a subclass of \<^verbatim>\<open>int\<close> in Python, so
  \<^verbatim>\<open>isinstance(True, int)\<close> holds and \<^verbatim>\<open>True\<close> compares as 1.
\<close>

datatype pyval =
    PNone
  | PBool bool
  | PInt int
  | PFloat int int
  | PStr string
  | PList "pyval list"
  | PTuple "pyval list"
  | PDict "(string \<times> pyval) list"

datatype py_error = TypeError | ValueError | AttributeError | IndexError | KeyError

text \<open>\<^verbatim>\<open>isinstance(x, int)\<close> together with the integer the value compares as.\<close>

fun py_int :: "pyval \<Rightarrow> int option" where
  "py_int (PInt i) = Some i"
| "py_int (PBool b) = Some (if b then 1 else 0)"
| "py_int _ = None"

text \<open>
  Whether \<^verbatim>\<open>hash(x)\<close> succeeds: lists and dictionaries are unhashable, a tuple is hashable
  when all its elements are.
\<close>

fun hashable :: "pyval \<Rightarrow> bool" where
  "hashable (PList xs) = False"
| "hashable (PDict kvs) = False"
| "hashable (PTuple xs) = list_all hashable xs"
| "hashable _ = True"

text \<open>
  \<^verbatim>\<open>len(x)\<close> followed by iteration over \<^verbatim>\<open>x\<close>: the elements of a list or tuple, the
  one-character strings of a string, the keys of a dictionary; any other value has no
  \<^verbatim>\<open>len\<close> and raises \<^verbatim>\<open>TypeError\<close>.
\<close>

fun py_elements :: "pyval \<Rightarrow> py_error + pyval list" where
  "py_elements (PList xs) = Inr xs"
| "py_elements (PTuple xs) = Inr xs"
| "py_elements (PStr s) = Inr (map (\<lambda>c. PStr [c]) s)"
| "py_elements (PDict kvs) = Inr (map (\<lambda>kv. PStr (fst kv)) kvs)"
| "py_elements _ = Inl TypeError"

section \<open>Strings: character classes, decimal numerals, split and join\<close>

text \<open>
  Python strings are sequences of code points; here a string is a list of 8-bit
  characters. The two agree on ASCII text, which is what the definitions below are exact
  for: a character above 127 is taken as neither digit, letter, word character nor
  whitespace, and has no other case.
\<close>

definition is_digit :: "char \<Rightarrow> bool" where
  "is_digit c \<longleftrightarrow> c \<in> set ''0123456789''"

definition is_lower :: "char \<Rightarrow> bool" where
  "is_lower c \<longleftrightarrow> c \<in> set ''abcdefghijklmnopqrstuvwxyz''"

definition is_upper :: "char \<Rightarrow> bool" where
  "is_upper c \<longleftrightarrow> c \<in> set ''ABCDEFGHIJKLMNOPQRSTUVWXYZ''"

text \<open>\<^verbatim>\<open>\w\<close>: letters, digits and the underscore.\<close>

definition is_word :: "char \<Rightarrow> bool" where
  "is_word c \<longleftrightarrow> is_lower c \<or> is_upper c \<or> is_digit c \<or> c = CHR ''_''"

text \<open>
  \<^verbatim>\<open>\s\<close> and \<^verbatim>\<open>str.isspace\<close> below 128: tab, line feed, vertical tab, form feed, carriage
  return, the four separators 0x1C to 0x1F, and the space.
\<close>

definition is_space :: "char \<Rightarrow> bool" where
  "is_space c \<longleftrightarrow>
     c \<in> {CHR 0x09, CHR 0x0A, CHR 0x0B, CHR 0x0C, CHR 0x0D,
          CHR 0x1C, CHR 0x1D, CHR 0x1E, CHR 0x1F, CHR '' ''}"

definition lower_char :: "char \<Rightarrow> char" where
  "lower_char c =
     (case map_of (zip ''ABCDEFGHIJKLMNOPQRSTUVWXYZ'' ''abcdefghijklmnopqrstuvwxyz'') c of
        Some l \<Rightarrow> l | None \<Rightarrow> c)"

definition lower :: "string \<Rightarrow> string" where
  "lower s = map lower_char s"

text \<open>The value of a decimal digit, and the digit of a value below ten.\<close>

definition digit_val :: "char \<Rightarrow> nat" where
  "digit_val c = length (takeWhile (\<lambda>d. d \<noteq> c) ''0123456789'')"

definition digit_char :: "nat \<Rightarrow> char" where
  "digit_char d = ''0123456789'' ! d"

text \<open>\<^verbatim>\<open>int(s)\<close> for a string of decimal digits, as the regular expressions capture them.\<close>

definition nat_of_digits :: "string \<Rightarrow> nat" where
  "nat_of_digits s = foldl (\<lambda>a c. 10 * a + digit_val c) 0 s"

text \<open>\<^verbatim>\<open>str(n)\<close> for an integer: decimal digits, most significant first, a minus sign before
  a negative one.\<close>

fun str_nat :: "nat \<Rightarrow> string" where
  "str_nat n = (if n < 10 then [digit_char n] else str_nat (n div 10) @ [digit_char (n mod 10)])"

declare str_nat.simps [simp del]

definition str_int :: "int \<Rightarrow> string" where
  "str_int i = (if i < 0 then CHR ''-'' # str_nat (nat (- i)) else str_nat (nat i))"

text \<open>The format \<^verbatim>\<open>{n:0wd}\<close> for \<open>n \<ge> 0\<close>: the decimal text, zero-filled on the left to
  width \<open>w\<close>.\<close>

definition fmt_0d :: "nat \<Rightarrow> nat \<Rightarrow> string" where
  "fmt_0d w n = replicate (w - length (str_nat n)) CHR ''0'' @ str_nat n"

text \<open>\<^verbatim>\<open>sep.join(parts)\<close>.\<close>

fun join :: "string \<Rightarrow> string list \<Rightarrow> string" where
  "join sep [] = []"
| "join sep [p] = p"
| "join sep (p # q # ps) = p @ sep @ join sep (q # ps)"

text \<open>
  \<^verbatim>\<open>s.split()\<close> with no argument: the maximal runs of non-whitespace characters, in order.
  \<open>split_from cur s\<close> carries the current run, reversed.
\<close>

fun split_from :: "string \<Rightarrow> string \<Rightarrow> string list" where
  "split_from cur [] = (if cur = [] then [] else [rev cur])"
| "split_from cur (c # cs) =
     (if is_space c then (if cur = [] then split_from [] cs else rev cur # split_from [] cs)
      else split_from (c # cur) cs)"

definition split_ws :: "string \<Rightarrow> string list" where
  "split_ws s = split_from [] s"


section \<open>Regular expressions as \<^verbatim>\<open>re\<close> matches them\<close>

text \<open>
  The fragment of Python's \<^verbatim>\<open>re\<close> syntax the modelled patterns use: a character class, a
  greedy repetition \<^verbatim>\<open>{lo,hi}\<close> of a character class (\<^verbatim>\<open>*\<close> is \<^verbatim>\<open>{0,}\<close>, \<^verbatim>\<open>+\<close> is
  \<^verbatim>\<open>{1,}\<close>), concatenation, alternation (left alternative first), a numbered capturing
  group, and the word boundary \<^verbatim>\<open>\b\<close>.
\<close>

datatype regex =
    Chr "char \<Rightarrow> bool"
  | Rep "char \<Rightarrow> bool" nat "nat option"
  | Seq regex regex
  | Alt regex regex
  | Grp nat regex
  | WordB
  | Eps

text \<open>
  A matcher state: the text already passed (reversed, so that its head is the character
  before the current position), the text ahead, and the groups captured so far, latest
  first.
\<close>

type_synonym mstate = "string \<times> string \<times> (nat \<times> string) list"

text \<open>\<^verbatim>\<open>\b\<close> holds where exactly one of the characters before and after the position is a
  word character; the ends of the text count as non-word.\<close>

fun at_boundary :: "mstate \<Rightarrow> bool" where
  "at_boundary (pre, rest, caps) \<longleftrightarrow>
     (case pre of [] \<Rightarrow> False | c # _ \<Rightarrow> is_word c) \<noteq> (case rest of [] \<Rightarrow> False | c # _ \<Rightarrow> is_word c)"

text \<open>
  Greedy repetition of a class, with backtracking: take one more character while the class
  and the upper bound allow it and the rest of the pattern (the continuation \<open>k\<close>) then
  succeeds; otherwise stop here if the lower bound is met.
\<close>

fun rep_greedy ::
  "(char \<Rightarrow> bool) \<Rightarrow> nat \<Rightarrow> nat option \<Rightarrow> (mstate \<Rightarrow> 'a option) \<Rightarrow> string \<Rightarrow> string
     \<Rightarrow> (nat \<times> string) list \<Rightarrow> 'a option" where
  "rep_greedy p lo hi k pre [] caps = (if lo = 0 then k (pre, [], caps) else None)"
| "rep_greedy p lo hi k pre (c # cs) caps =
     (if p c \<and> hi \<noteq> Some 0 then
        (case rep_greedy p (lo - 1) (map_option (\<lambda>h. h - 1) hi) k (c # pre) cs caps of
           Some res \<Rightarrow> Some res
         | None \<Rightarrow> if lo = 0 then k (pre, c # cs, caps) else None)
      else if lo = 0 then k (pre, c # cs, caps) else None)"

text \<open>
  The backtracking matcher in continuation-passing style: \<open>rmatch r k st\<close> is the first
  success, in the order \<^verbatim>\<open>re\<close> tries the alternatives, of matching \<open>r\<close> at \<open>st\<close> and then
  running \<open>k\<close> on the state reached.
\<close>

fun rmatch :: "regex \<Rightarrow> (mstate \<Rightarrow> 'a option) \<Rightarrow> mstate \<Rightarrow> 'a option" where
  "rmatch (Chr p) k (pre, rest, caps) =
     (case rest of [] \<Rightarrow> None | c # cs \<Rightarrow> if p c then k (c # pre, cs, caps) else None)"
| "rmatch (Rep p lo hi) k (pre, rest, caps) = rep_greedy p lo hi k pre rest caps"
| "rmatch (Seq a b) k st = rmatch a (\<lambda>st'. rmatch b k st') st"
| "rmatch (Alt a b) k st = (case rmatch a k st of Some res \<Rightarrow> Some res | None \<Rightarrow> rmatch b k st)"
| "rmatch (Grp n r) k (pre, rest, caps) =
     rmatch r (\<lambda>(pre', rest', caps').
                 k (pre', rest', (n, rev (take (length pre' - length pre) pre')) # caps'))
       (pre, rest, caps)"
| "rmatch WordB k st = (if at_boundary st then k st else None)"
| "rmatch Eps k st = k st"

text \<open>\<^verbatim>\<open>re.search\<close>: the match at the leftmost position that has one. Group 0 is the
  whole match.\<close>

fun search_at :: "regex \<Rightarrow> string \<Rightarrow> string \<Rightarrow> mstate option" where
  "search_at r pre [] = rmatch (Grp 0 r) Some (pre, [], [])"
| "search_at r pre (c # cs) =
     (case rmatch (Grp 0 r) Some (pre, c # cs, []) of
        Some m \<Rightarrow> Some m
      | None \<Rightarrow> search_at r (c # pre) cs)"

definition re_search :: "regex \<Rightarrow> string \<Rightarrow> mstate option" where
  "re_search r s = search_at r [] s"

text \<open>\<^verbatim>\<open>m.group(n)\<close> for a group that took part in the match.\<close>

fun group :: "mstate \<Rightarrow> nat \<Rightarrow> string" where
  "group (pre, rest, caps) n = (case map_of caps n of Some g \<Rightarrow> g | None \<Rightarrow> [])"

text \<open>Pattern building blocks: a sequence, a literal, a literal under \<^verbatim>\<open>re.I\<close>, one of
  several alternatives.\<close>

definition seq :: "regex list \<Rightarrow> regex" where
  "seq rs = foldr Seq rs Eps"

definition lit :: "string \<Rightarrow> regex" where
  "lit s = seq (map (\<lambda>c. Chr (\<lambda>x. x = c)) s)"

definition lit_i :: "string \<Rightarrow> regex" where
  "lit_i s = seq (map (\<lambda>c. Chr (\<lambda>x. lower_char x = lower_char c)) s)"

fun alts :: "regex list \<Rightarrow> regex" where
  "alts [] = Eps"
| "alts [r] = r"
| "alts (r # rs) = Alt r (alts rs)"



section \<open>Game rules and the validator (layer2/extract\_from\_snaps.py)\<close>

record game_rule =
  main :: "nat \<times> int \<times> int"
  bonus :: "nat \<times> int \<times> int"
  bonus_name :: string

definition GAME_RULES_table :: "(string \<times> game_rule) list" where
  "GAME_RULES_table =
    [(''Powerball'',      \<lparr>main = (5, 1, 69), bonus = (1, 1, 26), bonus_name = ''Powerball''\<rparr>),
     (''Mega Millions'',  \<lparr>main = (5, 1, 70), bonus = (1, 1, 25), bonus_name = ''Mega Ball''\<rparr>),
     (''Lucky for Life'', \<lparr>main = (5, 1, 48), bonus = (1, 1, 18), bonus_name = ''Lucky Ball''\<rparr>),
     (''Cash4Life'',      \<lparr>main = (5, 1, 60), bonus = (1, 1, 4),  bonus_name = ''Cash Ball''\<rparr>),
     (''Lotto America'',  \<lparr>main = (5, 1, 52), bonus = (1, 1, 10), bonus_name = ''Star Ball''\<rparr>)]"

text \<open>
  \<^verbatim>\<open>GAME_RULES.get(game)\<close>: a key that cannot be hashed raises; a key that is not one of
  the five strings gives \<^verbatim>\<open>None\<close>.
\<close>

definition GAME_RULES_get :: "pyval \<Rightarrow> py_error + game_rule option" where
  "GAME_RULES_get game =
     (if \<not> hashable game then Inl TypeError
      else case game of PStr g \<Rightarrow> Inr (map_of GAME_RULES_table g) | _ \<Rightarrow> Inr None)"

definition in_range :: "int \<Rightarrow> int \<Rightarrow> pyval \<Rightarrow> bool" where
  "in_range lo hi x = (case py_int x of None \<Rightarrow> False | Some i \<Rightarrow> lo \<le> i \<and> i \<le> hi)"

text \<open>
  The bonus test at the end of \<^verbatim>\<open>validate_numbers\<close>: \<^verbatim>\<open>None\<close> fails, an integer is
  compared with the range, a list or tuple of exactly one integer is compared through that
  element, anything else fails.
\<close>

fun bonus_in_range :: "int \<Rightarrow> int \<Rightarrow> pyval \<Rightarrow> bool" where
  "bonus_in_range blo bhi PNone = False"
| "bonus_in_range blo bhi (PInt i) = (blo \<le> i \<and> i \<le> bhi)"
| "bonus_in_range blo bhi (PBool b) = (blo \<le> (if b then 1 else 0) \<and> (if b then 1 else 0) \<le> bhi)"
| "bonus_in_range blo bhi (PList [b0]) = in_range blo bhi b0"
| "bonus_in_range blo bhi (PTuple [b0]) = in_range blo bhi b0"
| "bonus_in_range blo bhi _ = False"

definition validate_numbers :: "pyval \<Rightarrow> pyval \<Rightarrow> pyval \<Rightarrow> py_error + bool" where
  "validate_numbers game nums bonus_v =
     (case GAME_RULES_get game of
        Inl e \<Rightarrow> Inl e
      | Inr None \<Rightarrow> Inr False
      | Inr (Some rule) \<Rightarrow>
          (let (main_count, lo, hi) = main rule; (bonus_count, blo, bhi) = bonus rule in
           (case py_elements nums of
              Inl e \<Rightarrow> Inl e
            | Inr xs \<Rightarrow>
                (if length xs \<noteq> main_count then Inr False
                 else if \<not> list_all (in_range lo hi) xs then Inr False
                 else Inr (bonus_in_range blo bhi bonus_v)))))"

section \<open>Records, \<^verbatim>\<open>to_record\<close> and \<^verbatim>\<open>dedupe_keep_best\<close> (layer2/extract\_from\_snaps.py)\<close>

text \<open>
  An element of a record's \<^verbatim>\<open>numbers\<close> list: \<^verbatim>\<open>to_record\<close> builds the list from
  integers and appends the bonus when \<^verbatim>\<open>isinstance(bonus, int)\<close>, which a boolean also
  passes. \<^verbatim>\<open>True == 1\<close> and \<^verbatim>\<open>hash(True) == hash(1)\<close>, so as part of a dictionary key
  an element counts by its integer value.
\<close>

datatype pynum = NInt int | NBool bool

fun num_value :: "pynum \<Rightarrow> int" where
  "num_value (NInt i) = i"
| "num_value (NBool b) = (if b then 1 else 0)"

text \<open>
  The dictionary \<^verbatim>\<open>to_record\<close> returns, with the types its call sites give the fields:
  the game is a key of \<^verbatim>\<open>GAME_RULES\<close>, the date the string \<^verbatim>\<open>sane_date\<close> returned, the
  method a string literal; jackpot, URL and confidence are passed through as they are.
\<close>

record draw_record =
  date :: string
  game :: string
  numbers :: "pynum list"
  jackpot_usd :: pyval
  winners :: pyval
  source_url :: pyval
  fetched_at :: string
  extraction_method :: string
  confidence :: pyval

text \<open>
  \<^verbatim>\<open>to_record\<close>. At every call site \<^verbatim>\<open>nums\<close> is a list of integers made by
  \<^verbatim>\<open>int(x)\<close> from digit runs, so \<^verbatim>\<open>list(map(int, nums))\<close> is that list. A bonus that is
  not an integer but a non-empty list or tuple is replaced by its first element; the
  bonus is appended to the numbers when it is then an integer (or a boolean).
  \<^verbatim>\<open>utcnow\<close> is the text of \<^verbatim>\<open>datetime.utcnow().isoformat()\<close> at the moment of the call.
\<close>

fun unwrap_bonus :: "pyval \<Rightarrow> pyval" where
  "unwrap_bonus (PList (b0 # bs)) = b0"
| "unwrap_bonus (PTuple (b0 # bs)) = b0"
| "unwrap_bonus b = b"

fun bonus_numbers :: "pyval \<Rightarrow> pynum list" where
  "bonus_numbers (PInt i) = [NInt i]"
| "bonus_numbers (PBool b) = [NBool b]"
| "bonus_numbers _ = []"

definition to_record ::
  "string \<Rightarrow> string \<Rightarrow> string \<Rightarrow> int list \<Rightarrow> pyval \<Rightarrow> pyval \<Rightarrow> pyval \<Rightarrow> string \<Rightarrow> pyval
     \<Rightarrow> draw_record" where
  "to_record utcnow game_v iso_date nums bonus_v jackpot url method conf =
     \<lparr>date = iso_date,
      game = game_v,
      numbers = map NInt nums @ bonus_numbers (unwrap_bonus bonus_v),
      jackpot_usd = jackpot,
      winners = PNone,
      source_url = url,
      fetched_at = utcnow @ ''Z'',
      extraction_method = method,
      confidence = conf\<rparr>"

text \<open>
  \<^verbatim>\<open>dedupe_keep_best\<close>. The dictionary \<^verbatim>\<open>seen\<close> keeps insertion order, and assigning to
  a key that is present keeps its position: an association list under \<open>AList.update\<close>.
  \<^verbatim>\<open>rank.get(method, 0)\<close> gives 0 to any method other than the three named.
\<close>

definition rank :: "string \<Rightarrow> nat" where
  "rank m = (if m = ''json'' then 3 else if m = ''html'' then 2 else if m = ''vision'' then 1 else 0)"

type_synonym record_key = "string \<times> string \<times> int list"

definition record_key :: "draw_record \<Rightarrow> record_key" where
  "record_key r = (game r, date r, map num_value (numbers r))"

definition dedupe_step ::
  "(record_key \<times> draw_record) list \<Rightarrow> draw_record \<Rightarrow> (record_key \<times> draw_record) list" where
  "dedupe_step seen r =
     (let key = record_key r in
      case map_of seen key of
        None \<Rightarrow> AList.update key r seen
      | Some old \<Rightarrow>
          if rank (extraction_method r) > rank (extraction_method old)
          then AList.update key r seen else seen)"

definition dedupe_keep_best :: "draw_record list \<Rightarrow> draw_record list" where
  "dedupe_keep_best records = map snd (foldl dedupe_step [] records)"

section \<open>The date normalizer (layer2/parse\_and\_classify.py)\<close>

definition MONTHS :: "string list" where
  "MONTHS = [''jan'', ''feb'', ''mar'', ''apr'', ''may'', ''jun'',
             ''jul'', ''aug'', ''sep'', ''oct'', ''nov'', ''dec'']"

definition dash_or_slash :: "char \<Rightarrow> bool" where
  "dash_or_slash c \<longleftrightarrow> c = CHR ''-'' \<or> c = CHR ''/''"

text \<open>\<^verbatim>\<open>(\d{4})[-/](\d{2})[-/](\d{2})\<close>\<close>

definition RX_iso :: regex where
  "RX_iso = seq [Grp 1 (Rep is_digit 4 (Some 4)), Chr dash_or_slash,
                 Grp 2 (Rep is_digit 2 (Some 2)), Chr dash_or_slash,
                 Grp 3 (Rep is_digit 2 (Some 2))]"

text \<open>\<^verbatim>\<open>\b(\d{1,2})/(\d{1,2})/(\d{2,4})\b\<close>\<close>

definition RX_mdy :: regex where
  "RX_mdy = seq [WordB, Grp 1 (Rep is_digit 1 (Some 2)), lit ''/'',
                 Grp 2 (Rep is_digit 1 (Some 2)), lit ''/'',
                 Grp 3 (Rep is_digit 2 (Some 4)), WordB]"

text \<open>\<^verbatim>\<open>\b(jan|feb|...|dec)[a-z]*\s+(\d{1,2}),\s*(\d{4})\<close> under \<^verbatim>\<open>re.I\<close>, where
  \<^verbatim>\<open>[a-z]\<close> also takes the capital letters.\<close>

definition RX_month :: regex where
  "RX_month = seq [WordB, Grp 1 (alts (map lit_i MONTHS)),
                   Rep (\<lambda>c. is_lower c \<or> is_upper c) 0 None, Rep is_space 1 None,
                   Grp 2 (Rep is_digit 1 (Some 2)), lit '','', Rep is_space 0 None,
                   Grp 3 (Rep is_digit 4 (Some 4))]"

text \<open>\<^verbatim>\<open>draw\s*date[^0-9]{0,8}(\d{1,2}/\d{1,2}/\d{2,4})\<close> under \<^verbatim>\<open>re.I\<close>\<close>

definition RX_draw_date :: regex where
  "RX_draw_date = seq [lit_i ''draw'', Rep is_space 0 None, lit_i ''date'',
                       Rep (\<lambda>c. \<not> is_digit c) 0 (Some 8),
                       Grp 1 (seq [Rep is_digit 1 (Some 2), lit ''/'',
                                   Rep is_digit 1 (Some 2), lit ''/'',
                                   Rep is_digit 2 (Some 4)])]"

text \<open>\<^verbatim>\<open>xs.index(x)\<close>, which raises \<^verbatim>\<open>ValueError\<close> when \<open>x\<close> is absent.\<close>

fun list_index :: "'a list \<Rightarrow> 'a \<Rightarrow> nat option" where
  "list_index [] x = None"
| "list_index (y # ys) x = (if y = x then Some 0 else map_option Suc (list_index ys x))"

text \<open>
  What a match attempt that started with \<open>b\<close> characters behind it keeps true of its
  states, for a text of \<open>T\<close> characters: the position only moves forward, and no captured
  group is longer than the text passed since the start.
\<close>

fun match_inv :: "nat \<Rightarrow> nat \<Rightarrow> mstate \<Rightarrow> bool" where
  "match_inv T b (pre, rest, caps) \<longleftrightarrow>
     length pre + length rest = T \<and> b \<le> length pre \<and> (\<forall>(n, g) \<in> set caps. length g \<le> length pre - b)"

lemma rep_greedy_inv:
  "rep_greedy p lo hi k pre rest caps = Some res \<Longrightarrow> match_inv T b (pre, rest, caps)
     \<Longrightarrow> \<exists>st'. k st' = Some res \<and> match_inv T b st'"
proof (induction rest arbitrary: pre lo hi)
  case Nil
  then have "k (pre, [], caps) = Some res" by (simp split: if_splits)
  with Nil.prems(2) show ?case by blast
next
  case (Cons c cs)
  have step: "match_inv T b (c # pre, cs, caps)"
    using Cons.prems(2) by (fastforce simp: le_Suc_eq)
  from Cons.prems(1) consider
      (more) "rep_greedy p (lo - 1) (map_option (\<lambda>h. h - 1) hi) k (c # pre) cs caps = Some res"
    | (stop) "k (pre, c # cs, caps) = Some res"
    by (auto split: if_splits option.splits)
  then show ?case
  proof cases
    case more
    from Cons.IH [OF more step] show ?thesis .
  next
    case stop
    with Cons.prems(2) show ?thesis by blast
  qed
qed

lemma rmatch_inv:
  "rmatch r k st = Some res \<Longrightarrow> match_inv T b st \<Longrightarrow> \<exists>st'. k st' = Some res \<and> match_inv T b st'"
proof (induction r arbitrary: k st)
  case (Chr p)
  obtain pre rest caps where st: "st = (pre, rest, caps)" by (cases st) auto
  with Chr.prems(1) obtain c cs where rest: "rest = c # cs" and k: "k (c # pre, cs, caps) = Some res"
    by (auto split: list.splits if_splits)
  have "match_inv T b (c # pre, cs, caps)"
    using Chr.prems(2) by (fastforce simp: st rest le_Suc_eq)
  with k show ?case by blast
next
  case (Rep p lo hi)
  obtain pre rest caps where st: "st = (pre, rest, caps)" by (cases st) auto
  from Rep.prems(1) have "rep_greedy p lo hi k pre rest caps = Some res" by (simp add: st)
  from rep_greedy_inv [OF this] Rep.prems(2) show ?case by (simp only: st)
next
  case (Seq a b')
  from Seq.prems(1) have "rmatch a (\<lambda>st'. rmatch b' k st') st = Some res" by simp
  from Seq.IH(1) [OF this Seq.prems(2)] obtain st1
    where "rmatch b' k st1 = Some res" and "match_inv T b st1" by blast
  from Seq.IH(2) [OF this] show ?case .
next
  case (Alt a b')
  from Alt.prems(1) have "rmatch a k st = Some res \<or> rmatch b' k st = Some res"
    by (auto split: option.splits)
  with Alt.IH Alt.prems(2) show ?case by blast
next
  case (Grp n r)
  obtain pre rest caps where st: "st = (pre, rest, caps)" by (cases st) auto
  let ?k = "\<lambda>(pre', rest', caps').
              k (pre', rest', (n, rev (take (length pre' - length pre) pre')) # caps')"
  from Grp.prems(1) have "rmatch r ?k st = Some res" by (simp add: st)
  from Grp.IH [OF this Grp.prems(2)] obtain st1 where k1: "?k st1 = Some res"
    and inv1: "match_inv T b st1" by blast
  obtain pre1 rest1 caps1 where st1: "st1 = (pre1, rest1, caps1)" by (cases st1) auto
  have "b \<le> length pre" using Grp.prems(2) by (simp add: st)
  then have inv2: "match_inv T b (pre1, rest1, (n, rev (take (length pre1 - length pre) pre1)) # caps1)"
    using inv1 by (auto simp: st1)
  from k1 have "k (pre1, rest1, (n, rev (take (length pre1 - length pre) pre1)) # caps1) = Some res"
    by (simp add: st1)
  with inv2 show ?case by blast
next
  case WordB
  then have "k st = Some res" by (simp split: if_splits)
  with WordB.prems(2) show ?case by blast
next
  case Eps
  then have "k st = Some res" by simp
  with Eps.prems(2) show ?case by blast
qed

lemma lit_i_Cons: "lit_i (c # cs) = Seq (Chr (\<lambda>x. lower_char x = lower_char c)) (lit_i cs)"
  by (simp add: lit_i_def seq_def)

lemma seq_Cons: "seq (r # rs) = Seq r (seq rs)"
  by (simp add: seq_def)

lemma rmatch_draw_date_shorter:
  assumes "rmatch (Grp 0 RX_draw_date) Some (pre, rest, []) = Some m"
  shows "length (group m 1) < length rest"
proof -
  let ?k0 = "\<lambda>(pre', rest', caps'). Some (pre', rest', (0::nat, rev (take (length pre' - length pre) pre')) # caps')"
  let ?tail = "seq [Rep is_space 0 None, lit_i ''date'', Rep (\<lambda>c. \<not> is_digit c) 0 (Some 8),
                    Grp 1 (seq [Rep is_digit 1 (Some 2), lit ''/'', Rep is_digit 1 (Some 2), lit ''/'',
                                Rep is_digit 2 (Some 4)])]"
  let ?K = "\<lambda>st'. rmatch ?tail ?k0 st'"
  have "RX_draw_date = Seq (lit_i ''draw'') ?tail"
    by (simp only: RX_draw_date_def seq_Cons)
  with assms have "rmatch (Seq (lit_i ''draw'') ?tail) ?k0 (pre, rest, []) = Some m"
    by (simp only: rmatch.simps)
  then have "rmatch (Seq (Chr (\<lambda>x. lower_char x = lower_char CHR ''d'')) (lit_i ''raw'')) ?K
               (pre, rest, []) = Some m"
    by (simp only: rmatch.simps lit_i_Cons)
  then have "rmatch (Chr (\<lambda>x. lower_char x = lower_char CHR ''d'')) (\<lambda>st'. rmatch (lit_i ''raw'') ?K st')
               (pre, rest, []) = Some m"
    by (simp only: rmatch.simps)
  then obtain c cs where rest: "rest = c # cs"
    and raw: "rmatch (lit_i ''raw'') ?K (c # pre, cs, []) = Some m"
    by (cases rest) (simp_all only: rmatch.simps list.case option.distinct split: if_splits)
  have inv0: "match_inv (length pre + length rest) (Suc (length pre)) (c # pre, cs, [])"
    by (simp add: rest)
  from rmatch_inv [OF raw inv0] obtain st1 where "rmatch ?tail ?k0 st1 = Some m"
    and "match_inv (length pre + length rest) (Suc (length pre)) st1" by blast
  from rmatch_inv [OF this] obtain st2 where k0: "?k0 st2 = Some m"
    and inv2: "match_inv (length pre + length rest) (Suc (length pre)) st2" by blast
  obtain pre2 rest2 caps2 where st2: "st2 = (pre2, rest2, caps2)" by (cases st2) auto
  from k0 have m: "m = (pre2, rest2, (0, rev (take (length pre2 - length pre) pre2)) # caps2)"
    by (simp add: st2)
  show ?thesis
  proof (cases "map_of caps2 1")
    case None
    then show ?thesis by (simp add: m rest)
  next
    case (Some g)
    then have "(1, g) \<in> set caps2" by (rule map_of_SomeD)
    with inv2 have "length g \<le> length pre2 - Suc (length pre)" and "length pre2 + length rest2 = length pre + length rest"
      by (auto simp: st2)
    then show ?thesis using Some by (simp add: m rest)
  qed
qed

lemma search_at_draw_date_shorter:
  "search_at RX_draw_date pre rest = Some m \<Longrightarrow> length (group m 1) < length pre + length rest"
proof (induction rest arbitrary: pre)
  case Nil
  from rmatch_draw_date_shorter [of pre "[]" m] Nil show ?case by simp
next
  case (Cons c cs)
  show ?case
  proof (cases "rmatch (Grp 0 RX_draw_date) Some (pre, c # cs, [])")
    case None
    with Cons.prems have "search_at RX_draw_date (c # pre) cs = Some m" by simp
    from Cons.IH [OF this] show ?thesis by simp
  next
    case (Some m')
    with Cons.prems have "m' = m" by simp
    with Some rmatch_draw_date_shorter [of pre "c # cs" m] show ?thesis by simp
  qed
qed

lemma re_search_draw_date_shorter:
  "re_search RX_draw_date s = Some m \<Longrightarrow> length (group m 1) < length s"
  using search_at_draw_date_shorter [of "[]" s m] by (simp add: re_search_def)

text \<open>
  \<^verbatim>\<open>normalize_date\<close>. \<open>today\<close> is the text of \<^verbatim>\<open>datetime.date.today().isoformat()\<close>. The
  argument is \<^verbatim>\<open>None\<close> or a string, as annotated. The patterns are tried in the order of
  the source; the labelled form calls the function again on the captured date; when
  nothing matches, the result is the first ten characters of the text.
\<close>

function normalize_date :: "string \<Rightarrow> string option \<Rightarrow> py_error + string" where
  "normalize_date today None = Inr today"
| "normalize_date today (Some s) =
     (if s = [] then Inr today
      else case re_search RX_iso s of
        Some m \<Rightarrow> Inr (group m 1 @ ''-'' @ group m 2 @ ''-'' @ group m 3)
      | None \<Rightarrow>
     (case re_search RX_mdy s of
        Some m \<Rightarrow>
          (let mm = group m 1; dd = group m 2; yy = group m 3;
               yyyy = (if length yy = 4 then yy
                       else ''20'' @ replicate (2 - length yy) CHR ''0'' @ yy)
           in Inr (fmt_0d 4 (nat_of_digits yyyy) @ ''-'' @ fmt_0d 2 (nat_of_digits mm)
                   @ ''-'' @ fmt_0d 2 (nat_of_digits dd)))
      | None \<Rightarrow>
     (case re_search RX_month s of
        Some m \<Rightarrow>
          (let mon_txt = group m 1; dd = group m 2; yyyy = group m 3
           in case list_index MONTHS (take 3 (lower mon_txt)) of
                None \<Rightarrow> Inl ValueError
              | Some i \<Rightarrow>
                  Inr (fmt_0d 4 (nat_of_digits yyyy) @ ''-'' @ fmt_0d 2 (i + 1)
                       @ ''-'' @ fmt_0d 2 (nat_of_digits dd)))
      | None \<Rightarrow>
     (case re_search RX_draw_date s of
        Some m \<Rightarrow> normalize_date today (Some (group m 1))
      | None \<Rightarrow> Inr (take 10 s)))))"
  by pat_completeness auto
termination
  by (relation "measure (\<lambda>(today, a). case a of None \<Rightarrow> 0 | Some s \<Rightarrow> length s)")
     (auto dest: re_search_draw_date_shorter)

declare normalize_date.simps [simp del]

section \<open>Dates, times and \<^verbatim>\<open>sane_date\<close> (layer2/extract\_from\_snaps.py)\<close>

text \<open>
  A \<^verbatim>\<open>datetime\<close> as the standard library holds it: the calendar date by its proleptic
  Gregorian ordinal (\<^verbatim>\<open>toordinal()\<close>, day 1 is 0001-01-01), the time of day in
  microseconds since midnight, and the offset of its \<^verbatim>\<open>tzinfo\<close> east of UTC in
  microseconds (\<^verbatim>\<open>None\<close> for a naive value).
\<close>

record datetime =
  dt_ordinal :: int
  dt_usec :: int
  dt_utcoffset :: "int option"

definition usec_per_day :: int where
  "usec_per_day = 86400000000"

text \<open>Year, month and day of an ordinal, as \<^verbatim>\<open>date.fromordinal\<close> computes them.\<close>

fun month_day :: "int list \<Rightarrow> int \<Rightarrow> int \<Rightarrow> int \<times> int" where
  "month_day [] m n = (m, n + 1)"
| "month_day (d # ds) m n = (if n < d then (m, n + 1) else month_day ds (m + 1) (n - d))"

definition ord2ymd :: "int \<Rightarrow> int \<times> int \<times> int" where
  "ord2ymd ordinal =
     (let n = ordinal - 1;
          n400 = n div 146097; n = n mod 146097;
          n100 = n div 36524; n = n mod 36524;
          n4 = n div 1461; n = n mod 1461;
          n1 = n div 365; n = n mod 365;
          year = n400 * 400 + 1 + n100 * 100 + n4 * 4 + n1
      in if n1 = 4 \<or> n100 = 4 then (year - 1, 12, 31)
         else let leapyear = (n1 = 3 \<and> (n4 \<noteq> 24 \<or> n100 = 3));
                  feb = (if leapyear then 29 else 28)
              in (year, month_day [31, feb, 31, 30, 31, 30, 31, 31, 30, 31, 30] 1 n))"

definition dt_year :: "datetime \<Rightarrow> int" where
  "dt_year dt = fst (ord2ymd (dt_ordinal dt))"

text \<open>\<^verbatim>\<open>d.isoformat()\<close> of the date with the given ordinal: \<^verbatim>\<open>%04d-%02d-%02d\<close>.\<close>

definition isoformat :: "int \<Rightarrow> string" where
  "isoformat ordinal =
     (case ord2ymd ordinal of (y, m, d) \<Rightarrow>
        fmt_0d 4 (nat y) @ ''-'' @ fmt_0d 2 (nat m) @ ''-'' @ fmt_0d 2 (nat d))"

text \<open>
  The instant of an aware \<^verbatim>\<open>datetime\<close> in microseconds on the UTC axis, and the \<^verbatim>\<open>days\<close>
  field of a \<^verbatim>\<open>timedelta\<close>: the floor of the difference in whole days (a \<^verbatim>\<open>timedelta\<close> is
  normalised so that only \<^verbatim>\<open>days\<close> can be negative).
\<close>

definition utc_instant :: "datetime \<Rightarrow> int" where
  "utc_instant dt =
     dt_ordinal dt * usec_per_day + dt_usec dt - (case dt_utcoffset dt of None \<Rightarrow> 0 | Some off \<Rightarrow> off)"

definition timedelta_days :: "int \<Rightarrow> int" where
  "timedelta_days usec = usec div usec_per_day"

definition LAST_N_DAYS :: int where
  "LAST_N_DAYS = 14"

text \<open>\<^verbatim>\<open>if not dt.tzinfo: dt = dt.replace(tzinfo=timezone.utc)\<close>\<close>

definition assume_utc :: "datetime \<Rightarrow> datetime" where
  "assume_utc dt = (if dt_utcoffset dt = None then dt\<lparr>dt_utcoffset := Some 0\<rparr> else dt)"

text \<open>
  \<^verbatim>\<open>sane_date\<close>. \<open>parse\<close> stands for \<^verbatim>\<open>dateutil.parser.parse(_, fuzzy=True)\<close>, a library
  outside the repository: it gives the \<^verbatim>\<open>datetime\<close> read from the text, or \<^verbatim>\<open>None\<close>
  where it raises (the \<^verbatim>\<open>except\<close> clause then returns \<^verbatim>\<open>None\<close>). \<open>NOW\<close> is the module
  constant \<^verbatim>\<open>datetime.now(timezone.utc)\<close>, and \<^verbatim>\<open>THIS_YEAR\<close> its year.
\<close>

definition sane_date :: "(string \<Rightarrow> datetime option) \<Rightarrow> datetime \<Rightarrow> string \<Rightarrow> string option" where
  "sane_date parse NOW date_str =
     (case parse date_str of
        None \<Rightarrow> None
      | Some parsed \<Rightarrow>
          (let dt = assume_utc parsed; THIS_YEAR = dt_year NOW in
           if dt_year dt < THIS_YEAR - 1 \<or> dt_year dt > THIS_YEAR then None
           else (let delta_days = timedelta_days (utc_instant NOW - utc_instant dt) in
                 if delta_days < 0 \<or> delta_days > LAST_N_DAYS then None
                 else Some (isoformat (dt_ordinal dt)))))"

text \<open>
  The step every lane of \<^verbatim>\<open>extract_from_snaps.py\<close> that builds its own records takes for
  one candidate (\<^verbatim>\<open>parse_powerball_recent\<close>, \<^verbatim>\<open>parse_megamillions_asmx\<close>, the generic
  walk \<^verbatim>\<open>rec\<close>, \<^verbatim>\<open>apply_adapter_html\<close> and \<^verbatim>\<open>extract_from_html\<close>): the date text goes
  through \<^verbatim>\<open>sane_date\<close> and the candidate is skipped when that gives \<^verbatim>\<open>None\<close>; the five
  main numbers and the bonus go through \<^verbatim>\<open>validate_numbers\<close> and the candidate is skipped
  when that is not true; otherwise \<^verbatim>\<open>to_record\<close> builds the record.
\<close>

definition lane_record ::
  "(string \<Rightarrow> datetime option) \<Rightarrow> datetime \<Rightarrow> string \<Rightarrow> string \<Rightarrow> string \<Rightarrow> int list \<Rightarrow> pyval
     \<Rightarrow> pyval \<Rightarrow> pyval \<Rightarrow> string \<Rightarrow> draw_record list" where
  "lane_record parse NOW utcnow game_v date_text nums bonus_v jackpot url method =
     (case sane_date parse NOW date_text of
        None \<Rightarrow> []
      | Some iso_date \<Rightarrow>
          if validate_numbers (PStr game_v) (PList (map PInt nums)) bonus_v = Inr True
          then [to_record utcnow game_v iso_date nums bonus_v jackpot url method PNone]
          else [])"

section \<open>Records and CSV rows of the two writers\<close>

text \<open>
  \<^verbatim>\<open>make_record\<close> of \<^verbatim>\<open>parse_and_classify.py\<close>. Its callers pass as \<^verbatim>\<open>numbers\<close> a
  list whose elements were made by \<^verbatim>\<open>int(...)\<close> or passed \<^verbatim>\<open>isinstance(x, int)\<close>;
  \<^verbatim>\<open>to_int_list\<close> applies \<^verbatim>\<open>int\<close> to each, which on such elements never raises and
  turns a boolean into 0 or 1. Jackpot and winners are kept when they are integers.
\<close>

record parsed_record =
  pc_date :: string
  pc_game :: string
  pc_numbers :: "int list"
  pc_jackpot_usd :: pyval
  pc_winners :: pyval
  pc_source_url :: pyval
  pc_fetched_at :: pyval

definition to_int_list :: "pynum list \<Rightarrow> int list" where
  "to_int_list maybe_iter = map num_value maybe_iter"

definition make_record ::
  "string \<Rightarrow> string \<Rightarrow> pynum list \<Rightarrow> pyval \<Rightarrow> pyval \<Rightarrow> pyval \<Rightarrow> pyval \<Rightarrow> parsed_record" where
  "make_record date_v game_v nums jackpot winners_v url fetched =
     \<lparr>pc_date = date_v,
      pc_game = game_v,
      pc_numbers = to_int_list nums,
      pc_jackpot_usd = (if py_int jackpot \<noteq> None then jackpot else PNone),
      pc_winners = (if py_int winners_v \<noteq> None then winners_v else PNone),
      pc_source_url = url,
      pc_fetched_at = fetched\<rparr>"

text \<open>\<^verbatim>\<open>str(x)\<close> for an element of a numbers list.\<close>

fun str_pynum :: "pynum \<Rightarrow> string" where
  "str_pynum (NInt i) = str_int i"
| "str_pynum (NBool b) = (if b then ''True'' else ''False'')"

text \<open>
  The numbers column of the CSV row, \<^verbatim>\<open>" ".join(map(str, numbers))\<close>, as
  \<^verbatim>\<open>extract_from_snaps.py\<close> and as \<^verbatim>\<open>parse_and_classify.py\<close> write it.
\<close>

definition numbers_column :: "draw_record \<Rightarrow> string" where
  "numbers_column r = join '' '' (map str_pynum (numbers r))"

definition pc_numbers_column :: "parsed_record \<Rightarrow> string" where
  "pc_numbers_column r = join '' '' (map str_int (pc_numbers r))"

text \<open>
  The row \<^verbatim>\<open>extract_from_snaps.py\<close> hands to \<^verbatim>\<open>csv.writer\<close>: date, game, numbers column,
  jackpot, source URL and extraction method. \<^verbatim>\<open>fetched_at\<close> is not among them.
\<close>

definition csv_row :: "draw_record \<Rightarrow> string \<times> string \<times> string \<times> pyval \<times> pyval \<times> string" where
  "csv_row r = (date r, game r, numbers_column r, jackpot_usd r, source_url r, extraction_method r)"

text \<open>
  Reading the column back, as the round-trip property words it: \<^verbatim>\<open>column.split()\<close> and
  \<^verbatim>\<open>int(piece)\<close> on each piece. \<^verbatim>\<open>int\<close> strips whitespace, takes an optional sign, then
  decimal digits that single underscores may separate, and raises \<^verbatim>\<open>ValueError\<close> on
  anything else.
\<close>

definition strip :: "string \<Rightarrow> string" where
  "strip s = rev (dropWhile is_space (rev (dropWhile is_space s)))"

fun digit_part :: "string \<Rightarrow> bool" where
  "digit_part [] = False"
| "digit_part [c] = is_digit c"
| "digit_part (c # d # cs) =
     (is_digit c \<and> (if d = CHR ''_'' then digit_part cs else digit_part (d # cs)))"

definition int_of_str :: "string \<Rightarrow> py_error + int" where
  "int_of_str s =
     (case strip s of
        [] \<Rightarrow> Inl ValueError
      | c # cs \<Rightarrow>
          if c = CHR ''-'' then
            (if digit_part cs then Inr (- int (nat_of_digits (filter is_digit cs))) else Inl ValueError)
          else if c = CHR ''+'' then
            (if digit_part cs then Inr (int (nat_of_digits (filter is_digit cs))) else Inl ValueError)
          else
            (if digit_part (c # cs) then Inr (int (nat_of_digits (filter is_digit (c # cs))))
             else Inl ValueError))"

definition read_numbers_column :: "string \<Rightarrow> (py_error + int) list" where
  "read_numbers_column col = map int_of_str (split_ws col)"

text \<open>Concrete clock readings and parse results for the examples below.\<close>

definition parse_as :: "datetime \<Rightarrow> string \<Rightarrow> datetime option" where
  "parse_as dt s = Some dt"

definition now_sep15_0100 :: datetime where
  "now_sep15_0100 = \<lparr>dt_ordinal = 739509, dt_usec = 3600000000, dt_utcoffset = Some 0\<rparr>"

definition aug30_midnight :: datetime where
  "aug30_midnight = \<lparr>dt_ordinal = 739493, dt_usec = 0, dt_utcoffset = None\<rparr>"

definition aug31_2300 :: datetime where
  "aug31_2300 = \<lparr>dt_ordinal = 739494, dt_usec = 82800000000, dt_utcoffset = None\<rparr>"

definition sep13_midnight :: datetime where
  "sep13_midnight = \<lparr>dt_ordinal = 739507, dt_usec = 0, dt_utcoffset = None\<rparr>"

section \<open>The driver's lane chain (\<^verbatim>\<open>main\<close> of layer2/extract\_from\_snaps.py)\<close>

text \<open>
  What the driver finds on disk for one \<^verbatim>\<open>.meta.json\<close>: the URL of the sidecar, and for each
  companion file whether it exists and what reading it gives. \<^verbatim>\<open>None\<close> is a file that
  does not exist, \<^verbatim>\<open>Inl\<close> an exception while opening, reading or decoding it (caught by
  the lane's \<^verbatim>\<open>try\<close>), \<^verbatim>\<open>Inr\<close> the text read or, for the network file, the value
  \<^verbatim>\<open>json.load\<close> returned. A dictionary is held with each key once.
\<close>

record capture =
  cap_url :: pyval
  body_json :: "(py_error + string) option"
  network_json :: "(py_error + pyval) option"
  html_file :: "(py_error + string) option"
  full_png :: "string option"

text \<open>
  The lanes in the driver's order. The result of a lane carries, besides the records, the
  lanes whose extraction function was called, one entry per call: this trace is not in the
  source and is kept only to state which lanes ran.
\<close>

datatype lane = LaneA0 | LaneA | LaneB | LaneC

text \<open>\<^verbatim>\<open>n.get("body", "")\<close>: a dictionary answers, any other value has no \<^verbatim>\<open>get\<close>.\<close>

fun get_body :: "pyval \<Rightarrow> py_error + pyval" where
  "get_body (PDict kvs) = Inr (case map_of kvs ''body'' of Some v \<Rightarrow> v | None \<Rightarrow> PStr [])"
| "get_body _ = Inl AttributeError"

text \<open>
  Lane A0, the clean body file. \<open>net\<close> stands for \<^verbatim>\<open>extract_from_network_json\<close>; an
  exception anywhere inside the \<^verbatim>\<open>try\<close> leaves the lane with nothing added.
\<close>

definition run_body ::
  "(pyval \<Rightarrow> pyval \<Rightarrow> py_error + draw_record list) \<Rightarrow> capture \<Rightarrow> lane list \<times> draw_record list" where
  "run_body net cap =
     (case body_json cap of
        None \<Rightarrow> ([], [])
      | Some (Inl e) \<Rightarrow> ([], [])
      | Some (Inr body) \<Rightarrow>
          (case net (PStr body) (cap_url cap) of
             Inl e \<Rightarrow> ([LaneA0], [])
           | Inr recs \<Rightarrow> ([LaneA0], recs)))"

text \<open>
  Lane A, the captured network responses: the loop stops at the first entry whose body
  yields records, and an exception on the way (an entry without \<^verbatim>\<open>get\<close>, an exception out
  of the extractor) ends the lane with nothing added, since \<^verbatim>\<open>records.extend\<close> comes only
  right before \<^verbatim>\<open>break\<close>.
\<close>

fun network_loop ::
  "(pyval \<Rightarrow> pyval \<Rightarrow> py_error + draw_record list) \<Rightarrow> pyval \<Rightarrow> pyval list
     \<Rightarrow> lane list \<times> draw_record list" where
  "network_loop net url [] = ([], [])"
| "network_loop net url (n # ns) =
     (case get_body n of
        Inl e \<Rightarrow> ([], [])
      | Inr b \<Rightarrow>
          (case net b url of
             Inl e \<Rightarrow> ([LaneA], [])
           | Inr recs \<Rightarrow>
               if recs \<noteq> [] then ([LaneA], recs)
               else (case network_loop net url ns of (tr, out) \<Rightarrow> (LaneA # tr, out))))"

definition run_network ::
  "(pyval \<Rightarrow> pyval \<Rightarrow> py_error + draw_record list) \<Rightarrow> capture \<Rightarrow> lane list \<times> draw_record list" where
  "run_network net cap =
     (case network_json cap of
        None \<Rightarrow> ([], [])
      | Some (Inl e) \<Rightarrow> ([], [])
      | Some (Inr nets) \<Rightarrow>
          (case py_elements nets of
             Inl e \<Rightarrow> ([], [])
           | Inr ns \<Rightarrow> network_loop net (cap_url cap) ns))"

text \<open>Lane B, the HTML file; \<open>html_lane\<close> stands for \<^verbatim>\<open>extract_from_html\<close>.\<close>

definition run_html ::
  "(string \<Rightarrow> pyval \<Rightarrow> py_error + draw_record list) \<Rightarrow> capture \<Rightarrow> lane list \<times> draw_record list" where
  "run_html html_lane cap =
     (case html_file cap of
        None \<Rightarrow> ([], [])
      | Some (Inl e) \<Rightarrow> ([], [])
      | Some (Inr h) \<Rightarrow>
          (case html_lane h (cap_url cap) of
             Inl e \<Rightarrow> ([LaneB], [])
           | Inr recs \<Rightarrow> ([LaneB], recs)))"

text \<open>Lane C, the screenshot; \<open>vision\<close> stands for \<^verbatim>\<open>extract_with_vision\<close>, which catches
  every exception itself.\<close>

definition run_vision ::
  "(string \<Rightarrow> pyval \<Rightarrow> draw_record list) \<Rightarrow> capture \<Rightarrow> lane list \<times> draw_record list" where
  "run_vision vision cap =
     (case full_png cap of
        None \<Rightarrow> ([], [])
      | Some img \<Rightarrow> ([LaneC], vision img (cap_url cap)))"

text \<open>
  The body of the driver's loop for one capture: each lane runs only if every lane before it
  left \<^verbatim>\<open>recs\<close> empty (\<^verbatim>\<open>if recs: records.extend(recs); continue\<close>). The result is the
  trace and what the capture adds to \<^verbatim>\<open>records\<close>.
\<close>

definition process_capture ::
  "(pyval \<Rightarrow> pyval \<Rightarrow> py_error + draw_record list)
     \<Rightarrow> (string \<Rightarrow> pyval \<Rightarrow> py_error + draw_record list)
     \<Rightarrow> (string \<Rightarrow> pyval \<Rightarrow> draw_record list)
     \<Rightarrow> capture \<Rightarrow> lane list \<times> draw_record list" where
  "process_capture net html_lane vision cap =
     (let (t0, r0) = run_body net cap in
      if r0 \<noteq> [] then (t0, r0)
      else let (t1, r1) = run_network net cap in
      if r1 \<noteq> [] then (t0 @ t1, r1)
      else let (t2, r2) = run_html html_lane cap in
      if r2 \<noteq> [] then (t0 @ t1 @ t2, r2)
      else let (t3, r3) = run_vision vision cap in
      (t0 @ t1 @ t2 @ t3, r3))"

text \<open>The whole driver over the captures in the order \<^verbatim>\<open>glob\<close> lists them: the records of
  all captures, then \<^verbatim>\<open>dedupe_keep_best\<close>.\<close>

definition run_pipeline ::
  "(pyval \<Rightarrow> pyval \<Rightarrow> py_error + draw_record list)
     \<Rightarrow> (string \<Rightarrow> pyval \<Rightarrow> py_error + draw_record list)
     \<Rightarrow> (string \<Rightarrow> pyval \<Rightarrow> draw_record list)
     \<Rightarrow> capture list \<Rightarrow> draw_record list" where
  "run_pipeline net html_lane vision caps =
     dedupe_keep_best (concat (map (\<lambda>cap. snd (process_capture net html_lane vision cap)) caps))"

text \<open>A valid Powerball record for the examples, by method and source URL.\<close>

definition example_record :: "string \<Rightarrow> string \<Rightarrow> draw_record" where
  "example_record method url =
     to_record ''2025-09-14T08:00:00'' ''Powerball'' ''2025-09-13'' [1, 12, 23, 34, 45] (PInt 10)
       PNone (PStr url) method PNone"

text \<open>Stand-ins for the three extractors in the examples: each returns one record of its
  own method for any input it is called on, the JSON extractor only for the body \<^verbatim>\<open>B\<close>.\<close>

definition net_example :: "pyval \<Rightarrow> pyval \<Rightarrow> py_error + draw_record list" where
  "net_example njson url = (if njson = PStr ''B'' then Inr [example_record ''json'' ''u''] else Inr [])"

definition html_example :: "string \<Rightarrow> pyval \<Rightarrow> py_error + draw_record list" where
  "html_example h url = Inr [example_record ''html'' ''u'']"

definition vision_example :: "string \<Rightarrow> pyval \<Rightarrow> draw_record list" where
  "vision_example img url = [example_record ''vision'' ''u'']"

definition capture_example ::
  "(py_error + string) option \<Rightarrow> (py_error + pyval) option \<Rightarrow> (py_error + string) option \<Rightarrow> capture" where
  "capture_example b n h =
     \<lparr>cap_url = PStr ''u'', body_json = b, network_json = n, html_file = h, full_png = Some ''P''\<rparr>"

text \<open>The record \<^verbatim>\<open>to_record\<close> builds when the bonus field of the JSON row is \<^verbatim>\<open>true\<close>.\<close>

definition bool_bonus_record :: draw_record where
  "bool_bonus_record =
     to_record ''2025-09-15T01:00:00'' ''Powerball'' ''2025-09-13'' [1, 12, 23, 34, 45] (PBool True)
       PNone PNone ''json'' PNone"

section \<open>The rendered-text lane (\<^verbatim>\<open>extract_from_html\<close> of layer2/extract\_from\_snaps.py)\<close>







section \<open>What of the output depends on the clock\<close>

text \<open>A record with the stamp \<^verbatim>\<open>fetched_at\<close> blanked, to compare records of two runs.\<close>

definition without_stamp :: "draw_record \<Rightarrow> draw_record" where
  "without_stamp r = r\<lparr>fetched_at := []\<rparr>"

text \<open>
  The dataset \<^verbatim>\<open>main\<close> of \<^verbatim>\<open>parse_and_classify.py\<close> dumps as JSON. \<open>now_version\<close> and
  \<open>now_iso\<close> are the texts of \<^verbatim>\<open>now.strftime("%Y.%m.%d")\<close> and \<^verbatim>\<open>now.isoformat()\<close> for
  \<^verbatim>\<open>now = datetime.datetime.utcnow().replace(microsecond=0)\<close>.
\<close>

record dataset =
  ds_version :: string
  ds_last_updated :: string
  ds_records :: "parsed_record list"
  ds_parse_stats :: "(string \<times> nat) list"

definition build_dataset ::
  "string \<Rightarrow> string \<Rightarrow> parsed_record list \<Rightarrow> (string \<times> nat) list \<Rightarrow> dataset" where
  "build_dataset now_version now_iso unique by_host =
     \<lparr>ds_version = now_version, ds_last_updated = now_iso @ ''Z'',
      ds_records = unique, ds_parse_stats = by_host\<rparr>"

text \<open>The JSON extractor of the examples at a given clock reading: it builds, from any body,
  the record of one fixed valid candidate.\<close>

definition net_at :: "datetime \<Rightarrow> string \<Rightarrow> pyval \<Rightarrow> pyval \<Rightarrow> py_error + draw_record list" where
  "net_at NOW utcnow njson url =
     Inr (lane_record (parse_as sep13_midnight) NOW utcnow ''Powerball'' ''09/13/2025''
            [1, 12, 23, 34, 45] (PInt 10) PNone url ''json'')"

definition now_oct05_0100 :: datetime where
  "now_oct05_0100 = \<lparr>dt_ordinal = 739529, dt_usec = 3600000000, dt_utcoffset = Some 0\<rparr>"

section \<open>The validator's contract\<close>




section \<open>Deduplication keeps one best record per key\<close>

text \<open>
  What the claim asks of the record kept for a key \<open>k\<close> among the input \<open>ps\<close>: it is the input
  at some index \<open>i\<close>, it has key \<open>k\<close>, no input with that key has a higher rank, and no
  input with that key and the same rank comes before \<open>i\<close>.
\<close>

definition best_in :: "draw_record list \<Rightarrow> record_key \<Rightarrow> draw_record \<Rightarrow> bool" where
  "best_in ps k r \<longleftrightarrow>
     (\<exists>i < length ps. ps ! i = r \<and> record_key r = k
        \<and> (\<forall>j < length ps. record_key (ps ! j) = k \<longrightarrow>
              rank (extraction_method (ps ! j)) \<le> rank (extraction_method r)
            \<and> (rank (extraction_method (ps ! j)) = rank (extraction_method r) \<longrightarrow> i \<le> j)))"

text \<open>The loop invariant of \<^verbatim>\<open>dedupe_keep_best\<close> after the inputs \<open>ps\<close>.\<close>

definition seen_inv :: "draw_record list \<Rightarrow> (record_key \<times> draw_record) list \<Rightarrow> bool" where
  "seen_inv ps seen \<longleftrightarrow>
     distinct (map fst seen)
   \<and> fst ` set seen = record_key ` set ps
   \<and> (\<forall>k r. map_of seen k = Some r \<longrightarrow> best_in ps k r)"

lemma best_in_other_key:
  "best_in ps k r \<Longrightarrow> record_key x \<noteq> k \<Longrightarrow> best_in (ps @ [x]) k r"
  unfolding best_in_def
  by (auto simp: nth_append less_Suc_eq)

lemma best_in_new_key:
  assumes "record_key x \<notin> record_key ` set ps"
  shows "best_in (ps @ [x]) (record_key x) x"
proof -
  have "record_key (ps ! j) \<noteq> record_key x" if "j < length ps" for j
    using assms that by (metis imageI nth_mem)
  then show ?thesis
    unfolding best_in_def
    by (intro exI [of _ "length ps"]) (auto simp: nth_append less_Suc_eq)
qed

lemma best_in_better:
  "best_in ps (record_key x) old \<Longrightarrow> rank (extraction_method old) < rank (extraction_method x)
     \<Longrightarrow> best_in (ps @ [x]) (record_key x) x"
  unfolding best_in_def
  apply (rule exI [of _ "length ps"]) 
  apply (auto simp: nth_append less_Suc_eq)
  done

lemma best_in_keep:
  "best_in ps (record_key x) old \<Longrightarrow> \<not> rank (extraction_method old) < rank (extraction_method x)
     \<Longrightarrow> best_in (ps @ [x]) (record_key x) old"
  unfolding best_in_def
  apply (auto simp: nth_append less_Suc_eq)
  done

lemma seen_inv_Nil: "seen_inv [] []"
  by (simp add: seen_inv_def)

lemma seen_inv_step:
  assumes inv: "seen_inv ps seen"
  shows "seen_inv (ps @ [x]) (dedupe_step seen x)"
proof -
  from inv have D: "distinct (map fst seen)"
    and K: "fst ` set seen = record_key ` set ps"
    and B: "\<And>k r. map_of seen k = Some r \<Longrightarrow> best_in ps k r"
    by (auto simp: seen_inv_def)
  show ?thesis
  proof (cases "map_of seen (record_key x)")
    case None
    then have fresh: "record_key x \<notin> record_key ` set ps"
      using K by (simp add: map_of_eq_None_iff)
    have step: "dedupe_step seen x = AList.update (record_key x) x seen"
      using None by (simp add: dedupe_step_def)
    show ?thesis
      unfolding seen_inv_def step
      using D K B fresh
      by (auto simp: distinct_update dom_update update_conv' best_in_new_key best_in_other_key)
  next
    case (Some old)
    then have present: "record_key x \<in> fst ` set seen"
      by (metis map_of_eq_None_iff option.distinct(1))
    show ?thesis
    proof (cases "rank (extraction_method old) < rank (extraction_method x)")
      case True
      have step: "dedupe_step seen x = AList.update (record_key x) x seen"
        using Some True by (simp add: dedupe_step_def)
      show ?thesis
        unfolding seen_inv_def step
        using D K B present B [OF Some] True
        by (auto simp: distinct_update dom_update update_conv' best_in_better best_in_other_key)
    next
      case False
      have step: "dedupe_step seen x = seen"
        using Some False by (simp add: dedupe_step_def)
      have "best_in (ps @ [x]) k r" if "map_of seen k = Some r" for k r
      proof (cases "k = record_key x")
        case True
        with that Some have "r = old" by simp
        with True B [OF Some] False show ?thesis by (simp add: best_in_keep)
      next
        case False
        with B [OF that] show ?thesis by (simp add: best_in_other_key)
      qed
      then show ?thesis
        unfolding seen_inv_def step
        using D K present by auto
    qed
  qed
qed

lemma seen_inv_foldl: "seen_inv ps seen \<Longrightarrow> seen_inv (ps @ rs) (foldl dedupe_step seen rs)"
proof (induction rs arbitrary: ps seen)
  case Nil
  then show ?case by simp
next
  case (Cons x rs)
  from seen_inv_step [OF Cons.prems] have "seen_inv (ps @ [x]) (dedupe_step seen x)" .
  from Cons.IH [OF this] show ?case by simp
qed

lemma seen_inv_entry:
  assumes "seen_inv ps seen" and "(k, r) \<in> set seen"
  shows "best_in ps k r" and "record_key r = k"
proof -
  from assms have "map_of seen k = Some r"
    by (simp add: seen_inv_def)
  with assms(1) show "best_in ps k r"
    unfolding seen_inv_def by blast
  then show "record_key r = k"
    by (auto simp: best_in_def)
qed

lemma seen_inv_keys:
  assumes "seen_inv ps seen"
  shows "map record_key (map snd seen) = map fst seen"
  using seen_inv_entry(2) [OF assms] by (auto simp: comp_def)

text \<open>
  Claim C2. For every input list \<open>rs\<close>, the output of \<^verbatim>\<open>dedupe_keep_best\<close> has pairwise
  different keys (game, date, numbers), its keys are exactly the keys of the input, and
  each record it retains is an input record \<open>rs ! i\<close> such that no input with the same key
  has a higher rank (json 3, html 2, vision 1, anything else 0) and no input with the same
  key and the same rank stands before index \<open>i\<close>: the highest rank wins, and the first seen
  among equals.
\<close>

theorem dedupe_keep_best_one_best_per_key:
  "distinct (map record_key (dedupe_keep_best rs))
   \<and> set (map record_key (dedupe_keep_best rs)) = set (map record_key rs)
   \<and> (\<forall>r \<in> set (dedupe_keep_best rs).
        \<exists>i < length rs. rs ! i = r
          \<and> (\<forall>j < length rs. record_key (rs ! j) = record_key r \<longrightarrow>
                rank (extraction_method (rs ! j)) \<le> rank (extraction_method r)
              \<and> (rank (extraction_method (rs ! j)) = rank (extraction_method r) \<longrightarrow> i \<le> j)))"
proof -
  define seen where "seen = foldl dedupe_step [] rs"
  have inv: "seen_inv rs seen"
    using seen_inv_foldl [OF seen_inv_Nil, of rs] by (simp add: seen_def)
  have out: "dedupe_keep_best rs = map snd seen"
    by (simp add: dedupe_keep_best_def seen_def)
  have keys: "map record_key (dedupe_keep_best rs) = map fst seen"
    using seen_inv_keys [OF inv] by (simp add: out)
  have "distinct (map record_key (dedupe_keep_best rs))"
    using inv by (simp add: keys seen_inv_def)
  moreover have "set (map record_key (dedupe_keep_best rs)) = set (map record_key rs)"
    using inv by (simp add: keys seen_inv_def)
  moreover have "\<exists>i < length rs. rs ! i = r
          \<and> (\<forall>j < length rs. record_key (rs ! j) = record_key r \<longrightarrow>
                rank (extraction_method (rs ! j)) \<le> rank (extraction_method r)
              \<and> (rank (extraction_method (rs ! j)) = rank (extraction_method r) \<longrightarrow> i \<le> j))"
    if "r \<in> set (dedupe_keep_best rs)" for r
  proof -
    from that obtain k where "(k, r) \<in> set seen"
      by (auto simp: out)
    from seen_inv_entry [OF inv this] show ?thesis
      by (auto simp: best_in_def)
  qed
  ultimately show ?thesis by blast
qed

text \<open>
  The theorem at two records with one key, methods html and json, in either order (only
  the json record survives), and at two json records with one key (the first survives).
\<close>

theorem dedupe_keep_best_one_best_per_key_witness:
  "dedupe_keep_best [example_record ''html'' ''a'', example_record ''json'' ''b'']
     = [example_record ''json'' ''b'']
   \<and> dedupe_keep_best [example_record ''json'' ''b'', example_record ''html'' ''a'']
     = [example_record ''json'' ''b'']
   \<and> dedupe_keep_best [example_record ''json'' ''a'', example_record ''json'' ''b'']
     = [example_record ''json'' ''a'']"
  using dedupe_keep_best_one_best_per_key
          [of "[example_record ''html'' ''a'', example_record ''json'' ''b'']"]
  by (simp add: dedupe_keep_best_def dedupe_step_def example_record_def to_record_def
        record_key_def rank_def)

section \<open>The date normalizer: missing text, unmatched text\<close>





section \<open>The recency window\<close>

lemma timedelta_days_negative: "timedelta_days x < 0 \<longleftrightarrow> x < 0"
  unfolding timedelta_days_def usec_per_day_def
  by (simp add: pos_imp_zdiv_neg_iff)

lemma timedelta_days_beyond:
  "LAST_N_DAYS < timedelta_days x \<longleftrightarrow> (LAST_N_DAYS + 1) * usec_per_day \<le> x"
proof -
  define q where "q = x div 86400000000"
  define r where "r = x mod 86400000000"
  have x: "x = 86400000000 * q + r" by (simp add: q_def r_def)
  have r: "0 \<le> r" "r < 86400000000" by (simp_all add: r_def)
  have "14 < q \<longleftrightarrow> 15 * 86400000000 \<le> x"
    using r unfolding x by linarith
  then show ?thesis
    unfolding timedelta_days_def usec_per_day_def LAST_N_DAYS_def q_def by simp
qed

lemma sane_date_Some_iff:
  "sane_date parse NOW s = Some d \<longleftrightarrow>
     (\<exists>parsed. parse s = Some parsed
        \<and> dt_year NOW - 1 \<le> dt_year (assume_utc parsed) \<and> dt_year (assume_utc parsed) \<le> dt_year NOW
        \<and> utc_instant (assume_utc parsed) \<le> utc_instant NOW
        \<and> utc_instant NOW - utc_instant (assume_utc parsed) < (LAST_N_DAYS + 1) * usec_per_day
        \<and> d = isoformat (dt_ordinal (assume_utc parsed)))"
proof (cases "parse s")
  case None
  then show ?thesis by (simp add: sane_date_def)
next
  case (Some parsed)
  let ?dt = "assume_utc parsed"
  let ?delta = "utc_instant NOW - utc_instant ?dt"
  have neg: "timedelta_days ?delta < 0 \<longleftrightarrow> utc_instant NOW < utc_instant ?dt"
    by (simp add: timedelta_days_negative)
  have far: "LAST_N_DAYS < timedelta_days ?delta \<longleftrightarrow> (LAST_N_DAYS + 1) * usec_per_day \<le> ?delta"
    by (rule timedelta_days_beyond)
  show ?thesis
    unfolding sane_date_def Let_def Some option.case neg far
    by (auto simp: not_less not_le)
qed
lemma lane_record_no_date:
  "sane_date parse NOW s = None \<Longrightarrow> lane_record parse NOW u g s nums b j url m = []"
  by (simp add: lane_record_def)

lemma sane_date_None_outside:
  assumes "parse s = Some parsed"
    and "utc_instant NOW < utc_instant (assume_utc parsed)
          \<or> (LAST_N_DAYS + 1) * usec_per_day \<le> utc_instant NOW - utc_instant (assume_utc parsed)"
  shows "sane_date parse NOW s = None"
proof (cases "sane_date parse NOW s")
  case None
  then show ?thesis .
next
  case (Some d)
  then obtain p where "parse s = Some p"
    and "utc_instant (assume_utc p) \<le> utc_instant NOW"
    and "utc_instant NOW - utc_instant (assume_utc p) < (LAST_N_DAYS + 1) * usec_per_day"
    unfolding sane_date_Some_iff by blast
  with assms show ?thesis by auto
qed

lemma date_only_outside:
  assumes now: "dt_utcoffset NOW = Some 0" "0 \<le> dt_usec NOW" "dt_usec NOW < usec_per_day"
    and midnight: "dt_usec parsed = 0" "dt_utcoffset parsed = None \<or> dt_utcoffset parsed = Some 0"
    and out: "dt_ordinal parsed < dt_ordinal NOW - LAST_N_DAYS \<or> dt_ordinal NOW < dt_ordinal parsed"
  shows "utc_instant NOW < utc_instant (assume_utc parsed)
          \<or> (LAST_N_DAYS + 1) * usec_per_day \<le> utc_instant NOW - utc_instant (assume_utc parsed)"
proof -
  define D where "D = usec_per_day"
  define a where "a = dt_ordinal parsed"
  define c where "c = dt_ordinal NOW"
  have D: "0 \<le> D" by (simp add: D_def usec_per_day_def)
  have p: "utc_instant (assume_utc parsed) = a * D"
    using midnight by (auto simp: utc_instant_def assume_utc_def D_def a_def)
  have n: "utc_instant NOW = c * D + dt_usec NOW"
    using now(1) by (simp add: utc_instant_def D_def c_def)
  from out show ?thesis
  proof
    assume "dt_ordinal parsed < dt_ordinal NOW - LAST_N_DAYS"
    then have "a + (LAST_N_DAYS + 1) \<le> c" by (simp add: a_def c_def)
    then have "(a + (LAST_N_DAYS + 1)) * D \<le> c * D" using D by (rule mult_right_mono)
    then have "a * D + (LAST_N_DAYS + 1) * D \<le> c * D" by (simp only: distrib_right)
    with now(2) have "(LAST_N_DAYS + 1) * D \<le> c * D + dt_usec NOW - a * D" by linarith
    then show ?thesis by (simp add: p n D_def)
  next
    assume "dt_ordinal NOW < dt_ordinal parsed"
    then have "c + 1 \<le> a" by (simp add: a_def c_def)
    then have "(c + 1) * D \<le> a * D" using D by (rule mult_right_mono)
    then have "c * D + D \<le> a * D" by (simp only: distrib_right mult_1)
    with now(3) have "c * D + dt_usec NOW < a * D" unfolding D_def by linarith
    then show ?thesis by (simp add: p n)
  qed
qed

text \<open>
  Claim C4, amended. \<^verbatim>\<open>sane_date\<close> compares instants, not calendar dates: a text whose
  parsed \<^verbatim>\<open>datetime\<close> (taken as UTC when naive) lies after \<open>NOW\<close>, or 15 whole days
  (\<^verbatim>\<open>LAST_N_DAYS + 1\<close>) or more before it, gives \<^verbatim>\<open>None\<close>, and the lane builds no
  record from the candidate. When the text carries a date only (midnight, naive or UTC),
  this is the claim as written: a date more than 14 days before the UTC date of \<open>NOW\<close>, or
  after it, is never promoted. (\<^verbatim>\<open>parse_and_classify.py\<close> has no recency window at all.)
\<close>

theorem sane_date_rejects_outside_window:
  assumes "parse s = Some parsed"
  shows "((utc_instant NOW < utc_instant (assume_utc parsed)
            \<or> (LAST_N_DAYS + 1) * usec_per_day \<le> utc_instant NOW - utc_instant (assume_utc parsed))
          \<longrightarrow> sane_date parse NOW s = None
              \<and> lane_record parse NOW utcnow g s nums b jackpot url mth = [])
       \<and> (dt_utcoffset NOW = Some 0 \<and> 0 \<le> dt_usec NOW \<and> dt_usec NOW < usec_per_day
            \<and> dt_usec parsed = 0 \<and> (dt_utcoffset parsed = None \<or> dt_utcoffset parsed = Some 0)
            \<and> (dt_ordinal parsed < dt_ordinal NOW - LAST_N_DAYS \<or> dt_ordinal NOW < dt_ordinal parsed)
          \<longrightarrow> sane_date parse NOW s = None
              \<and> lane_record parse NOW utcnow g s nums b jackpot url mth = [])"
proof (intro conjI impI)
  assume a: "utc_instant NOW < utc_instant (assume_utc parsed)
            \<or> (LAST_N_DAYS + 1) * usec_per_day \<le> utc_instant NOW - utc_instant (assume_utc parsed)"
  from assms a show n: "sane_date parse NOW s = None" by (rule sane_date_None_outside)
  from lane_record_no_date [OF n] show "lane_record parse NOW utcnow g s nums b jackpot url mth = []" .
next
  assume b: "dt_utcoffset NOW = Some 0 \<and> 0 \<le> dt_usec NOW \<and> dt_usec NOW < usec_per_day
            \<and> dt_usec parsed = 0 \<and> (dt_utcoffset parsed = None \<or> dt_utcoffset parsed = Some 0)
            \<and> (dt_ordinal parsed < dt_ordinal NOW - LAST_N_DAYS \<or> dt_ordinal NOW < dt_ordinal parsed)"
  then have "utc_instant NOW < utc_instant (assume_utc parsed)
          \<or> (LAST_N_DAYS + 1) * usec_per_day \<le> utc_instant NOW - utc_instant (assume_utc parsed)"
    by (intro date_only_outside) blast+
  with assms show n: "sane_date parse NOW s = None" by (rule sane_date_None_outside)
  from lane_record_no_date [OF n] show "lane_record parse NOW utcnow g s nums b jackpot url mth = []" .
qed

theorem sane_date_rejects_outside_window_witness:
  "parse_as aug30_midnight ''2025-08-30'' = Some aug30_midnight
   \<and> dt_ordinal aug30_midnight < dt_ordinal now_sep15_0100 - LAST_N_DAYS
   \<and> isoformat (dt_ordinal aug30_midnight) = ''2025-08-30''
   \<and> isoformat (dt_ordinal now_sep15_0100) = ''2025-09-15''
   \<and> sane_date (parse_as aug30_midnight) now_sep15_0100 ''2025-08-30'' = None
   \<and> lane_record (parse_as aug30_midnight) now_sep15_0100 ''2025-09-15T01:00:00'' ''Powerball''
         ''2025-08-30'' [1, 12, 23, 34, 45] (PInt 10) PNone PNone ''json'' = []"
proof -
  have p: "parse_as aug30_midnight ''2025-08-30'' = Some aug30_midnight"
    by (simp add: parse_as_def)
  have i1: "isoformat (dt_ordinal aug30_midnight) = ''2025-08-30''" by code_simp
  have i2: "isoformat (dt_ordinal now_sep15_0100) = ''2025-09-15''" by code_simp
  from sane_date_rejects_outside_window
         [where parse = "parse_as aug30_midnight" and s = "''2025-08-30''"
            and parsed = aug30_midnight and NOW = now_sep15_0100
            and utcnow = "''2025-09-15T01:00:00''" and g = "''Powerball''"
            and nums = "[1, 12, 23, 34, 45]" and b = "PInt 10" and jackpot = PNone
            and url = PNone and mth = "''json''"] p i1 i2
  show ?thesis
    by (simp add: aug30_midnight_def now_sep15_0100_def LAST_N_DAYS_def usec_per_day_def)
qed

text \<open>
  Claim C4 as written fails in both pipelines. With \<open>NOW\<close> = 2025-09-15 01:00 UTC, the text
  ``2025-08-31 23:00'' is 14 days and 2 hours old, so \<^verbatim>\<open>delta.days\<close> is 14 and the
  candidate is promoted with the date 2025-08-31, which is 15 days before the date of
  \<open>NOW\<close>. And \<^verbatim>\<open>normalize_date\<close>, the date normalizer of \<^verbatim>\<open>parse_and_classify.py\<close>,
  returns a date 25 years old unchanged, and \<^verbatim>\<open>make_record\<close> takes it.
\<close>

theorem recency_window_counterexample:
  "dt_ordinal now_sep15_0100 - dt_ordinal aug31_2300 = LAST_N_DAYS + 1
   \<and> isoformat (dt_ordinal now_sep15_0100) = ''2025-09-15''
   \<and> sane_date (parse_as aug31_2300) now_sep15_0100 ''2025-08-31 23:00'' = Some ''2025-08-31''
   \<and> lane_record (parse_as aug31_2300) now_sep15_0100 ''2025-09-15T01:00:00'' ''Powerball''
         ''2025-08-31 23:00'' [1, 12, 23, 34, 45] (PInt 10) PNone PNone ''json''
       = [to_record ''2025-09-15T01:00:00'' ''Powerball'' ''2025-08-31'' [1, 12, 23, 34, 45] (PInt 10)
            PNone PNone ''json'' PNone]
   \<and> normalize_date ''2025-09-15'' (Some ''2000-01-01'') = Inr ''2000-01-01''
   \<and> pc_date (make_record ''2000-01-01'' ''Powerball'' [NInt 1, NInt 12, NInt 23, NInt 34, NInt 45, NInt 10]
         PNone PNone PNone PNone) = ''2000-01-01''"
proof (intro conjI)
  show "dt_ordinal now_sep15_0100 - dt_ordinal aug31_2300 = LAST_N_DAYS + 1"
    by (simp add: now_sep15_0100_def aug31_2300_def LAST_N_DAYS_def)
  show "isoformat (dt_ordinal now_sep15_0100) = ''2025-09-15''" by code_simp
  show s: "sane_date (parse_as aug31_2300) now_sep15_0100 ''2025-08-31 23:00'' = Some ''2025-08-31''"
    by code_simp
  have v: "validate_numbers (PStr ''Powerball'') (PList (map PInt [1, 12, 23, 34, 45])) (PInt 10) = Inr True"
    by code_simp
  show "lane_record (parse_as aug31_2300) now_sep15_0100 ''2025-09-15T01:00:00'' ''Powerball''
         ''2025-08-31 23:00'' [1, 12, 23, 34, 45] (PInt 10) PNone PNone ''json''
       = [to_record ''2025-09-15T01:00:00'' ''Powerball'' ''2025-08-31'' [1, 12, 23, 34, 45] (PInt 10)
            PNone PNone ''json'' PNone]"
    unfolding lane_record_def s v by simp
  show "normalize_date ''2025-09-15'' (Some ''2000-01-01'') = Inr ''2000-01-01''" by code_simp
  show "pc_date (make_record ''2000-01-01'' ''Powerball'' [NInt 1, NInt 12, NInt 23, NInt 34, NInt 45, NInt 10]
         PNone PNone PNone PNone) = ''2000-01-01''"
    by (simp add: make_record_def)
qed

section \<open>The numbers of a canonical record\<close>

lemma GAME_RULES_facts:
  assumes "map_of GAME_RULES_table g = Some rule"
  shows "fst (main rule) = 5" and "fst (snd (main rule)) = 1" and "fst (snd (bonus rule)) = 1"
    and "snd (snd (bonus rule)) \<le> snd (snd (main rule))"
  using assms by (auto simp: GAME_RULES_table_def split: if_splits)

lemma validate_numbers_TrueD:
  assumes "validate_numbers (PStr g) (PList xs) b = Inr True"
  shows "\<exists>rule. map_of GAME_RULES_table g = Some rule
           \<and> length xs = fst (main rule)
           \<and> list_all (in_range (fst (snd (main rule))) (snd (snd (main rule)))) xs
           \<and> bonus_in_range (fst (snd (bonus rule))) (snd (snd (bonus rule))) b"
  using assms unfolding validate_numbers_def GAME_RULES_get_def
  by (auto split: option.splits prod.splits if_splits)

lemma bonus_numbers_valid:
  assumes "bonus_in_range blo bhi b"
  shows "\<exists>n. bonus_numbers (unwrap_bonus b) = [n] \<and> blo \<le> num_value n \<and> num_value n \<le> bhi"
  using assms
proof (induction blo bhi b rule: bonus_in_range.induct)
  case (4 blo bhi b0)
  then show ?case by (cases b0) (auto simp: in_range_def)
next
  case (5 blo bhi b0)
  then show ?case by (cases b0) (auto simp: in_range_def)
qed auto

text \<open>
  Claim C5, amended. Every record a lane builds from a validated candidate has in
  \<^verbatim>\<open>numbers\<close> the game's main balls followed by the bonus ball: its length is
  \<^verbatim>\<open>mainCount + 1\<close>, which is 6 for every supported game; the first \<^verbatim>\<open>mainCount\<close> values
  lie within the main range and the last within the bonus range. Since every game's bonus
  range lies inside its main range, every value of the list lies within the main range.
\<close>

theorem lane_record_numbers_shape:
  assumes "r \<in> set (lane_record parse NOW utcnow g s nums b jackpot url mth)"
  shows "\<exists>rule. map_of GAME_RULES_table g = Some rule
           \<and> length (numbers r) = fst (main rule) + 1
           \<and> length (numbers r) = 6
           \<and> (\<forall>i < fst (main rule). fst (snd (main rule)) \<le> num_value (numbers r ! i)
                                     \<and> num_value (numbers r ! i) \<le> snd (snd (main rule)))
           \<and> fst (snd (bonus rule)) \<le> num_value (last (numbers r))
           \<and> num_value (last (numbers r)) \<le> snd (snd (bonus rule))
           \<and> (\<forall>x \<in> set (numbers r). fst (snd (main rule)) \<le> num_value x
                                     \<and> num_value x \<le> snd (snd (main rule)))"
proof -
  from assms obtain iso_date where
    valid: "validate_numbers (PStr g) (PList (map PInt nums)) b = Inr True"
    and r: "r = to_record utcnow g iso_date nums b jackpot url mth PNone"
    by (auto simp: lane_record_def split: option.splits if_splits)
  from validate_numbers_TrueD [OF valid] obtain rule where
    rule: "map_of GAME_RULES_table g = Some rule"
    and len: "length nums = fst (main rule)"
    and mains: "list_all (in_range (fst (snd (main rule))) (snd (snd (main rule)))) (map PInt nums)"
    and bon: "bonus_in_range (fst (snd (bonus rule))) (snd (snd (bonus rule))) b"
    by auto
  from bonus_numbers_valid [OF bon] obtain n where
    n: "bonus_numbers (unwrap_bonus b) = [n]"
    and nlo: "fst (snd (bonus rule)) \<le> num_value n" and nhi: "num_value n \<le> snd (snd (bonus rule))"
    by blast
  have nums_r: "numbers r = map NInt nums @ [n]"
    by (simp add: r to_record_def n)
  have in_main: "fst (snd (main rule)) \<le> x \<and> x \<le> snd (snd (main rule))" if "x \<in> set nums" for x
    using mains that by (auto simp: list_all_iff in_range_def)
  note facts = GAME_RULES_facts [OF rule]
  have "length (numbers r) = fst (main rule) + 1"
    by (simp add: nums_r len)
  moreover have "length (numbers r) = 6"
    by (simp add: nums_r len facts(1))
  moreover have "fst (snd (main rule)) \<le> num_value (numbers r ! i)
                   \<and> num_value (numbers r ! i) \<le> snd (snd (main rule))" if "i < fst (main rule)" for i
    using that in_main [of "nums ! i"] by (simp add: nums_r nth_append len)
  moreover have "fst (snd (bonus rule)) \<le> num_value (last (numbers r))"
    and "num_value (last (numbers r)) \<le> snd (snd (bonus rule))"
    using nlo nhi by (simp_all add: nums_r)
  moreover have "fst (snd (main rule)) \<le> num_value x \<and> num_value x \<le> snd (snd (main rule))"
    if "x \<in> set (numbers r)" for x
    using that in_main nlo nhi facts by (auto simp: nums_r)
  ultimately show ?thesis using rule by blast
qed

theorem lane_record_numbers_shape_witness:
  "lane_record (parse_as sep13_midnight) now_sep15_0100 ''2025-09-15T01:00:00'' ''Powerball''
      ''09/13/2025'' [1, 12, 23, 34, 45] (PInt 10) PNone PNone ''json''
     = [to_record ''2025-09-15T01:00:00'' ''Powerball'' ''2025-09-13'' [1, 12, 23, 34, 45] (PInt 10)
          PNone PNone ''json'' PNone]
   \<and> numbers (to_record ''2025-09-15T01:00:00'' ''Powerball'' ''2025-09-13'' [1, 12, 23, 34, 45] (PInt 10)
          PNone PNone ''json'' PNone)
     = [NInt 1, NInt 12, NInt 23, NInt 34, NInt 45, NInt 10]"
proof -
  have s: "sane_date (parse_as sep13_midnight) now_sep15_0100 ''09/13/2025'' = Some ''2025-09-13''"
    by code_simp
  have v: "validate_numbers (PStr ''Powerball'') (PList (map PInt [1, 12, 23, 34, 45])) (PInt 10) = Inr True"
    by code_simp
  have l: "lane_record (parse_as sep13_midnight) now_sep15_0100 ''2025-09-15T01:00:00'' ''Powerball''
      ''09/13/2025'' [1, 12, 23, 34, 45] (PInt 10) PNone PNone ''json''
     = [to_record ''2025-09-15T01:00:00'' ''Powerball'' ''2025-09-13'' [1, 12, 23, 34, 45] (PInt 10)
          PNone PNone ''json'' PNone]"
    unfolding lane_record_def s v by simp
  from lane_record_numbers_shape
         [where parse = "parse_as sep13_midnight" and NOW = now_sep15_0100
            and utcnow = "''2025-09-15T01:00:00''" and g = "''Powerball''" and s = "''09/13/2025''"
            and nums = "[1, 12, 23, 34, 45]" and b = "PInt 10" and jackpot = PNone and url = PNone
            and mth = "''json''"
            and r = "to_record ''2025-09-15T01:00:00'' ''Powerball'' ''2025-09-13'' [1, 12, 23, 34, 45]
                       (PInt 10) PNone PNone ''json'' PNone"] l
  show ?thesis by (simp add: to_record_def)
qed

text \<open>
  Claim C5 as written asks for a numbers list of length \<^verbatim>\<open>mainCount\<close>, which is 5. The
  record built for a valid Powerball candidate has six: \<^verbatim>\<open>to_record\<close> appends the bonus.
\<close>

theorem numbers_length_counterexample:
  "map_of GAME_RULES_table ''Powerball''
     = Some \<lparr>main = (5, 1, 69), bonus = (1, 1, 26), bonus_name = ''Powerball''\<rparr>
   \<and> lane_record (parse_as sep13_midnight) now_sep15_0100 ''2025-09-15T01:00:00'' ''Powerball''
      ''09/13/2025'' [1, 12, 23, 34, 45] (PInt 10) PNone PNone ''json''
     = [to_record ''2025-09-15T01:00:00'' ''Powerball'' ''2025-09-13'' [1, 12, 23, 34, 45] (PInt 10)
          PNone PNone ''json'' PNone]
   \<and> length (numbers (to_record ''2025-09-15T01:00:00'' ''Powerball'' ''2025-09-13'' [1, 12, 23, 34, 45]
          (PInt 10) PNone PNone ''json'' PNone)) = 6"
proof (intro conjI)
  show "map_of GAME_RULES_table ''Powerball''
     = Some \<lparr>main = (5, 1, 69), bonus = (1, 1, 26), bonus_name = ''Powerball''\<rparr>"
    by (simp add: GAME_RULES_table_def)
  have s: "sane_date (parse_as sep13_midnight) now_sep15_0100 ''09/13/2025'' = Some ''2025-09-13''"
    by code_simp
  have v: "validate_numbers (PStr ''Powerball'') (PList (map PInt [1, 12, 23, 34, 45])) (PInt 10) = Inr True"
    by code_simp
  show "lane_record (parse_as sep13_midnight) now_sep15_0100 ''2025-09-15T01:00:00'' ''Powerball''
      ''09/13/2025'' [1, 12, 23, 34, 45] (PInt 10) PNone PNone ''json''
     = [to_record ''2025-09-15T01:00:00'' ''Powerball'' ''2025-09-13'' [1, 12, 23, 34, 45] (PInt 10)
          PNone PNone ''json'' PNone]"
    unfolding lane_record_def s v by simp
  show "length (numbers (to_record ''2025-09-15T01:00:00'' ''Powerball'' ''2025-09-13'' [1, 12, 23, 34, 45]
          (PInt 10) PNone PNone ''json'' PNone)) = 6"
    by (simp add: to_record_def)
qed

section \<open>The lane chain stops at the first lane that yields\<close>

lemma network_loop_trace: "set (fst (network_loop net url ns)) \<subseteq> {LaneA}"
  by (induction ns) (auto split: sum.splits prod.splits)

lemma run_body_trace: "set (fst (run_body net cap)) \<subseteq> {LaneA0}"
  by (auto simp: run_body_def split: option.splits sum.splits)

lemma run_network_trace: "set (fst (run_network net cap)) \<subseteq> {LaneA}"
  using network_loop_trace
  by (auto simp: run_network_def split: option.splits sum.splits)

lemma run_html_trace: "set (fst (run_html html_lane cap)) \<subseteq> {LaneB}"
  by (auto simp: run_html_def split: option.splits sum.splits)

text \<open>
  Claim C3. For every capture, the first lane of the chain (clean body JSON, captured
  network JSON, HTML, vision) that yields at least one record decides what the capture
  contributes: the contribution is exactly that lane's records, and no extraction function
  of a later lane is called. Lanes are never merged: the contribution is always the list
  of one lane (that of the vision lane when the first three yield nothing).
\<close>

theorem process_capture_short_circuit:
  "(snd (run_body net cap) \<noteq> [] \<longrightarrow>
      snd (process_capture net html_lane vision cap) = snd (run_body net cap)
      \<and> set (fst (process_capture net html_lane vision cap)) \<subseteq> {LaneA0})
   \<and> (snd (run_body net cap) = [] \<and> snd (run_network net cap) \<noteq> [] \<longrightarrow>
      snd (process_capture net html_lane vision cap) = snd (run_network net cap)
      \<and> set (fst (process_capture net html_lane vision cap)) \<subseteq> {LaneA0, LaneA})
   \<and> (snd (run_body net cap) = [] \<and> snd (run_network net cap) = []
        \<and> snd (run_html html_lane cap) \<noteq> [] \<longrightarrow>
      snd (process_capture net html_lane vision cap) = snd (run_html html_lane cap)
      \<and> set (fst (process_capture net html_lane vision cap)) \<subseteq> {LaneA0, LaneA, LaneB})
   \<and> (snd (run_body net cap) = [] \<and> snd (run_network net cap) = []
        \<and> snd (run_html html_lane cap) = [] \<longrightarrow>
      snd (process_capture net html_lane vision cap) = snd (run_vision vision cap))"
proof -
  obtain t0 r0 where b: "run_body net cap = (t0, r0)" by (cases "run_body net cap")
  obtain t1 r1 where n: "run_network net cap = (t1, r1)" by (cases "run_network net cap")
  obtain t2 r2 where h: "run_html html_lane cap = (t2, r2)" by (cases "run_html html_lane cap")
  obtain t3 r3 where v: "run_vision vision cap = (t3, r3)" by (cases "run_vision vision cap")
  have t0: "set t0 \<subseteq> {LaneA0}" using run_body_trace [of net cap] by (simp add: b)
  have t1: "set t1 \<subseteq> {LaneA}" using run_network_trace [of net cap] by (simp add: n)
  have t2: "set t2 \<subseteq> {LaneB}" using run_html_trace [of html_lane cap] by (simp add: h)
  show ?thesis
    using t0 t1 t2 by (auto simp: process_capture_def b n h v)
qed

text \<open>
  Four captures: the body file yields (the network file, the HTML and the screenshot, which
  would yield too, are not touched); the body file yields nothing and the second network
  entry does (the third entry, which would raise, is not reached); only the HTML yields;
  only the screenshot is left.
\<close>

theorem process_capture_short_circuit_witness:
  "process_capture net_example html_example vision_example
     (capture_example (Some (Inr ''B'')) (Some (Inr (PList [PDict [(''body'', PStr ''B'')]]))) (Some (Inr ''H'')))
     = ([LaneA0], [example_record ''json'' ''u''])
   \<and> process_capture net_example html_example vision_example
     (capture_example (Some (Inr ''X''))
        (Some (Inr (PList [PDict [(''body'', PStr ''X'')], PDict [(''body'', PStr ''B'')], PInt 3])))
        (Some (Inr ''H'')))
     = ([LaneA0, LaneA, LaneA], [example_record ''json'' ''u''])
   \<and> process_capture net_example html_example vision_example
     (capture_example None (Some (Inr (PList [PInt 3]))) (Some (Inr ''H'')))
     = ([LaneB], [example_record ''html'' ''u''])
   \<and> process_capture net_example html_example vision_example
     (capture_example None None (Some (Inl ValueError)))
     = ([LaneC], [example_record ''vision'' ''u''])"
  using process_capture_short_circuit [of net_example
      "capture_example (Some (Inr ''B'')) (Some (Inr (PList [PDict [(''body'', PStr ''B'')]]))) (Some (Inr ''H''))"
      html_example vision_example]
  by (simp add: process_capture_def run_body_def run_network_def run_html_def run_vision_def
        net_example_def html_example_def vision_example_def capture_example_def)

section \<open>Reading the numbers column back\<close>

lemma digit_char_cases:
  assumes "d < 10"
  shows "is_digit (digit_char d)" and "digit_val (digit_char d) = d"
proof -
  from assms have "d = 0 \<or> d = 1 \<or> d = 2 \<or> d = 3 \<or> d = 4 \<or> d = 5 \<or> d = 6 \<or> d = 7 \<or> d = 8 \<or> d = 9"
    by arith
  then show "is_digit (digit_char d)" and "digit_val (digit_char d) = d"
    by (auto simp: digit_char_def is_digit_def digit_val_def)
qed

lemma is_digit_not_space: "is_digit c \<Longrightarrow> \<not> is_space c"
  by (auto simp: is_digit_def is_space_def)

lemma is_digit_not_sign: "is_digit c \<Longrightarrow> c \<noteq> CHR ''-'' \<and> c \<noteq> CHR ''+'' \<and> c \<noteq> CHR ''_''"
  by (auto simp: is_digit_def)

lemma str_nat_digits: "list_all is_digit (str_nat n)"
proof (induction n rule: str_nat.induct)
  case (1 n)
  show ?case
  proof (cases "n < 10")
    case True
    then show ?thesis by (simp add: str_nat.simps [of n] digit_char_cases)
  next
    case False
    with 1 show ?thesis by (simp add: str_nat.simps [of n] digit_char_cases)
  qed
qed

lemma str_nat_nonempty: "str_nat n \<noteq> []"
  by (simp add: str_nat.simps [of n])

lemma nat_of_digits_snoc: "nat_of_digits (s @ [c]) = 10 * nat_of_digits s + digit_val c"
  by (simp add: nat_of_digits_def)

lemma nat_of_digits_str_nat: "nat_of_digits (str_nat n) = n"
proof (induction n rule: str_nat.induct)
  case (1 n)
  show ?case
  proof (cases "n < 10")
    case True
    then show ?thesis by (simp add: str_nat.simps [of n] nat_of_digits_def digit_char_cases)
  next
    case False
    with 1 have "nat_of_digits (str_nat (n div 10)) = n div 10" by simp
    with False show ?thesis
      by (simp add: str_nat.simps [of n] nat_of_digits_snoc digit_char_cases)
  qed
qed

lemma digit_part_digits: "s \<noteq> [] \<Longrightarrow> list_all is_digit s \<Longrightarrow> digit_part s"
  by (induction s rule: digit_part.induct) (auto dest: is_digit_not_sign)

lemma filter_digits: "list_all is_digit s \<Longrightarrow> filter is_digit s = s"
  by (induction s) auto

lemma strip_no_space: "list_all (\<lambda>c. \<not> is_space c) s \<Longrightarrow> strip s = s"
proof (cases s rule: rev_cases)
  case Nil
  then show ?thesis by (simp add: strip_def)
next
  case (snoc ys y)
  assume "list_all (\<lambda>c. \<not> is_space c) s"
  with snoc have y: "\<not> is_space y" and hd: "s \<noteq> []" "\<not> is_space (hd s)"
    by (cases ys; simp)+
  from hd have "dropWhile is_space s = s" by (cases s) auto
  moreover from y snoc have "dropWhile is_space (rev s) = rev s" by simp
  ultimately show ?thesis by (simp add: strip_def)
qed

lemma str_int_no_space: "list_all (\<lambda>c. \<not> is_space c) (str_int i)"
proof -
  have "list_all (\<lambda>c. \<not> is_space c) (str_nat n)" for n
    using str_nat_digits [of n] by (auto simp: list_all_iff dest: is_digit_not_space)
  then show ?thesis by (simp add: str_int_def is_space_def)
qed

lemma str_int_nonempty: "str_int i \<noteq> []"
  by (simp add: str_int_def str_nat_nonempty)

lemma int_of_str_str_int: "int_of_str (str_int i) = Inr i"
proof (cases "i < 0")
  case True
  have "strip (str_int i) = CHR ''-'' # str_nat (nat (- i))"
    using strip_no_space [OF str_int_no_space, of i] True by (simp add: str_int_def)
  then show ?thesis
    using True
    by (simp add: int_of_str_def digit_part_digits str_nat_digits str_nat_nonempty
          filter_digits nat_of_digits_str_nat)
next
  case False
  obtain c cs where cs: "str_nat (nat i) = c # cs"
    using str_nat_nonempty [of "nat i"] by (cases "str_nat (nat i)") auto
  have c: "is_digit c" using str_nat_digits [of "nat i"] by (simp add: cs)
  have dp: "digit_part (c # cs)"
    using digit_part_digits [of "str_nat (nat i)"] str_nat_digits [of "nat i"] by (simp add: cs)
  have fd: "filter is_digit (c # cs) = c # cs"
    using filter_digits [of "str_nat (nat i)"] str_nat_digits [of "nat i"] by (simp only: cs)
  have "strip (str_int i) = c # cs"
    using strip_no_space [OF str_int_no_space, of i] False by (simp add: str_int_def cs)
  then show ?thesis
    using False is_digit_not_sign [OF c] dp nat_of_digits_str_nat [of "nat i"]
    by (simp add: int_of_str_def fd del: digit_part.simps filter.simps) (simp add: cs [symmetric])
qed

lemma split_from_word:
  "list_all (\<lambda>c. \<not> is_space c) w \<Longrightarrow> split_from cur (w @ rest) = split_from (rev w @ cur) rest"
  by (induction w arbitrary: cur) auto

lemma split_ws_join:
  assumes "\<forall>w \<in> set ws. w \<noteq> [] \<and> list_all (\<lambda>c. \<not> is_space c) w"
  shows "split_from [] (join '' '' ws) = ws"
  using assms
proof (induction "'' ''" ws rule: join.induct)
  case 1
  then show ?case by simp
next
  case (2 p)
  then have "split_from [] (p @ []) = split_from (rev p @ []) []"
    by (intro split_from_word) simp
  with 2 show ?case by simp
next
  case (3 p q ps)
  from 3 have p: "p \<noteq> []" "list_all (\<lambda>c. \<not> is_space c) p" by simp_all
  have "split_from [] (p @ (CHR '' '' # join '' '' (q # ps)))
          = split_from (rev p @ []) (CHR '' '' # join '' '' (q # ps))"
    using p(2) by (rule split_from_word)
  also have "\<dots> = p # split_from [] (join '' '' (q # ps))"
    using p(1) by (simp add: is_space_def)
  also have "split_from [] (join '' '' (q # ps)) = q # ps"
    using 3 by simp
  finally show ?case by simp
qed

lemma read_numbers_column_join: "read_numbers_column (join '' '' (map str_int ns)) = map Inr ns"
proof -
  have "split_from [] (join '' '' (map str_int ns)) = map str_int ns"
    by (rule split_ws_join) (auto simp: str_int_nonempty str_int_no_space)
  then show ?thesis
    by (simp add: read_numbers_column_def split_ws_def int_of_str_str_int comp_def)
qed

lemma pc_numbers_column_round_trip:
  "read_numbers_column (pc_numbers_column r) = map Inr (pc_numbers r)"
  by (simp add: pc_numbers_column_def read_numbers_column_join)

lemma numbers_column_round_trip:
  assumes "numbers r = map NInt ns"
  shows "read_numbers_column (numbers_column r) = map Inr ns"
  using read_numbers_column_join [of ns] by (simp add: numbers_column_def assms comp_def)

text \<open>
  Claim C9 holds for every row \<^verbatim>\<open>parse_and_classify.py\<close> writes
  (\<open>pc_numbers_column_round_trip\<close>) and for every row of \<^verbatim>\<open>extract_from_snaps.py\<close> whose
  numbers are integers proper (\<open>numbers_column_round_trip\<close>). It fails on the row below:
  a JSON row whose bonus field is \<^verbatim>\<open>true\<close> passes \<^verbatim>\<open>validate_numbers\<close>, since
  \<^verbatim>\<open>isinstance(True, int)\<close> holds and \<^verbatim>\<open>1 <= True <= 26\<close>; \<^verbatim>\<open>to_record\<close> converts the
  main numbers with \<^verbatim>\<open>int\<close> but appends the bonus as it is; the CSV column then ends in
  \<^verbatim>\<open>True\<close>, which \<^verbatim>\<open>int\<close> does not read.
\<close>

theorem bool_bonus_column_not_read_back:
  "lane_record (parse_as sep13_midnight) now_sep15_0100 ''2025-09-15T01:00:00'' ''Powerball''
      ''09/13/2025'' [1, 12, 23, 34, 45] (PBool True) PNone PNone ''json'' = [bool_bonus_record]
   \<and> numbers bool_bonus_record = [NInt 1, NInt 12, NInt 23, NInt 34, NInt 45, NBool True]
   \<and> numbers_column bool_bonus_record = ''1 12 23 34 45 True''
   \<and> read_numbers_column ''1 12 23 34 45 True''
       = [Inr 1, Inr 12, Inr 23, Inr 34, Inr 45, Inl ValueError]"
proof (intro conjI)
  have s: "sane_date (parse_as sep13_midnight) now_sep15_0100 ''09/13/2025'' = Some ''2025-09-13''"
    by code_simp
  have v: "validate_numbers (PStr ''Powerball'') (PList (map PInt [1, 12, 23, 34, 45])) (PBool True) = Inr True"
    by code_simp
  show "lane_record (parse_as sep13_midnight) now_sep15_0100 ''2025-09-15T01:00:00'' ''Powerball''
      ''09/13/2025'' [1, 12, 23, 34, 45] (PBool True) PNone PNone ''json'' = [bool_bonus_record]"
    unfolding lane_record_def s v by (simp add: bool_bonus_record_def)
  show "numbers bool_bonus_record = [NInt 1, NInt 12, NInt 23, NInt 34, NInt 45, NBool True]"
    by (simp add: bool_bonus_record_def to_record_def)
  show "numbers_column bool_bonus_record = ''1 12 23 34 45 True''"
    by code_simp
  show "read_numbers_column ''1 12 23 34 45 True''
       = [Inr 1, Inr 12, Inr 23, Inr 34, Inr 45, Inl ValueError]"
    by code_simp
qed

section \<open>The soft-404 guard of the rendered-text lane\<close>




















end
